theory Spec2Isabelle
  imports Complex_Main "HOL-Library.Word" "HOL-Library.Multiset"
begin

section \<open>Validator sets of the HotStuff consensus engine (validator/default.go)\<close>

subsection \<open>Data model\<close>

text \<open>
  \<^verbatim>\<open>common.Address\<close> is a 20-byte array; a 160-bit word read big-endian. The zero
  value \<^verbatim>\<open>common.Address{}\<close> is the word 0. \<^verbatim>\<open>uint64\<close> is a 64-bit word whose
  arithmetic wraps; Go's \<^verbatim>\<open>int\<close> values here are lengths and counters bounded by a
  slice length, so they are modelled as \<open>int\<close>.
\<close>

type_synonym address = "160 word"
type_synonym uint64 = "64 word"

text \<open>
  Modelled from the spec: the constructor \<^verbatim>\<open>New\<close> of a validator lives in a file
  that is not part of the sources at hand. A validator has the single field \<^verbatim>\<open>address\<close>
  of \<^verbatim>\<open>defaultValidator\<close>, which \<^verbatim>\<open>Address()\<close> returns.
\<close>

datatype defaultValidator = New (Address: address)

text \<open>
  Modelled from the spec: \<^verbatim>\<open>hotstuff.SelectProposerPolicy\<close> is declared in another
  package; the spec gives it as the closed enumeration RoundRobin, Sticky, VRF.
\<close>

datatype SelectProposerPolicy = RoundRobin | Sticky | VRF

text \<open>
  The field \<^verbatim>\<open>selector\<close> holds one of the three selector functions of the file; it is
  stored as a tag and run by \<open>run_selector\<close> below.
\<close>

datatype ProposalSelector = roundRobinSelector_fn | stickySelector_fn | vrfSelector_fn

text \<open>
  The struct \<^verbatim>\<open>defaultSet\<close>. An interface value \<^verbatim>\<open>hotstuff.Validator\<close> is either
  \<^verbatim>\<open>nil\<close> or a validator: an option. The mutex has no effect on a sequential run
  and is left out.
\<close>

record defaultSet =
  validators :: "defaultValidator list"
  policy :: SelectProposerPolicy
  proposer :: "defaultValidator option"
  selector :: ProposalSelector

datatype panic = IndexOutOfRange | DivideByZero

datatype error = ErrInvalidParticipant

subsection \<open>Queries\<close>

definition Size :: "defaultSet \<Rightarrow> int" where
  "Size valSet = int (length (validators valSet))"

definition List :: "defaultSet \<Rightarrow> defaultValidator list" where
  "List valSet = validators valSet"

definition AddressList :: "defaultSet \<Rightarrow> address list" where
  "AddressList valSet = map Address (List valSet)"

text \<open>\<^verbatim>\<open>uint64(valSet.Size())\<close>: the conversion of an \<^verbatim>\<open>int\<close> to \<^verbatim>\<open>uint64\<close>.\<close>

definition uint64_of_int :: "int \<Rightarrow> uint64" where
  "uint64_of_int n = word_of_int n"

definition GetByIndex :: "defaultSet \<Rightarrow> uint64 \<Rightarrow> defaultValidator option" where
  "GetByIndex valSet i =
     (if i < uint64_of_int (Size valSet) then Some (validators valSet ! unat i) else None)"

text \<open>
  The loop \<^verbatim>\<open>for i, val := range vs { if addr == val.Address() { return i ... } }\<close>:
  the first index whose validator has the address.
\<close>

fun first_index :: "defaultValidator list \<Rightarrow> address \<Rightarrow> nat option" where
  "first_index [] addr = None"
| "first_index (val # vs) addr =
     (if addr = Address val then Some 0 else map_option Suc (first_index vs addr))"

definition GetByAddress :: "defaultSet \<Rightarrow> address \<Rightarrow> int \<times> defaultValidator option" where
  "GetByAddress valSet addr =
     (case first_index (List valSet) addr of
        Some i \<Rightarrow> (int i, Some (List valSet ! i))
      | None \<Rightarrow> (-1, None))"

definition GetProposer :: "defaultSet \<Rightarrow> defaultValidator option" where
  "GetProposer valSet = proposer valSet"

text \<open>
  \<^verbatim>\<open>reflect.DeepEqual\<close> on two interface values: two \<^verbatim>\<open>nil\<close>s are equal, a
  \<^verbatim>\<open>nil\<close> and a validator are not, and two validators are equal when their fields are.
  That is equality of the options.
\<close>

definition DeepEqual :: "defaultValidator option \<Rightarrow> defaultValidator option \<Rightarrow> bool" where
  "DeepEqual x y = (x = y)"

definition IsProposer :: "defaultSet \<Rightarrow> address \<Rightarrow> bool" where
  "IsProposer valSet addr =
     (let val = snd (GetByAddress valSet addr) in DeepEqual (GetProposer valSet) val)"

subsection \<open>Proposer selection\<close>

definition calcSeed :: "defaultSet \<Rightarrow> address \<Rightarrow> uint64 \<Rightarrow> uint64" where
  "calcSeed valSet p rnd =
     (let offset = (case GetByAddress valSet p of
                      (idx, Some val) \<Rightarrow> idx
                    | (idx, None) \<Rightarrow> 0)
      in uint64_of_int offset + rnd)"

definition emptyAddress :: "address \<Rightarrow> bool" where
  "emptyAddress addr = (addr = 0)"

definition roundRobinSelector :: "defaultSet \<Rightarrow> address \<Rightarrow> uint64 \<Rightarrow> defaultValidator option" where
  "roundRobinSelector valSet p rnd =
     (if Size valSet = 0 then None
      else let seed = (if emptyAddress p then rnd else calcSeed valSet p rnd + 1);
               pick = seed mod uint64_of_int (Size valSet)
           in GetByIndex valSet pick)"

definition stickySelector :: "defaultSet \<Rightarrow> address \<Rightarrow> uint64 \<Rightarrow> defaultValidator option" where
  "stickySelector valSet p rnd =
     (if Size valSet = 0 then None
      else let seed = (if emptyAddress p then rnd else calcSeed valSet p rnd);
               pick = seed mod uint64_of_int (Size valSet)
           in GetByIndex valSet pick)"

definition vrfSelector :: "defaultSet \<Rightarrow> address \<Rightarrow> uint64 \<Rightarrow> defaultValidator option" where
  "vrfSelector valSet p rnd = None"

fun run_selector ::
  "ProposalSelector \<Rightarrow> defaultSet \<Rightarrow> address \<Rightarrow> uint64 \<Rightarrow> defaultValidator option" where
  "run_selector roundRobinSelector_fn = roundRobinSelector"
| "run_selector stickySelector_fn = stickySelector"
| "run_selector vrfSelector_fn = vrfSelector"

definition CalcProposer :: "defaultSet \<Rightarrow> address \<Rightarrow> uint64 \<Rightarrow> defaultSet" where
  "CalcProposer valSet lastProposer rnd =
     valSet\<lparr>proposer := run_selector (selector valSet) valSet lastProposer rnd\<rparr>"

text \<open>
  \<^verbatim>\<open>valSet.validators[index]\<close> panics when the index is out of range, and
  \<^verbatim>\<open>%\<close> panics on a zero divisor.
\<close>

definition index_validators :: "defaultSet \<Rightarrow> uint64 \<Rightarrow> panic + defaultValidator" where
  "index_validators valSet i =
     (if unat i < length (validators valSet) then Inr (validators valSet ! unat i)
      else Inl IndexOutOfRange)"

definition CalcProposerByIndex :: "defaultSet \<Rightarrow> uint64 \<Rightarrow> panic + defaultSet" where
  "CalcProposerByIndex valSet index =
     (let n = uint64_of_int (int (length (validators valSet)));
          r = (if index > 1
               then (if n = 0 then Inl DivideByZero else Inr ((index - 1) mod n))
               else Inr 0)
      in case r of
           Inl e \<Rightarrow> Inl e
         | Inr index' \<Rightarrow>
             (case index_validators valSet index' of
                Inl e \<Rightarrow> Inl e
              | Inr val \<Rightarrow> Inr (valSet\<lparr>proposer := Some val\<rparr>)))"

subsection \<open>Construction and mutation\<close>

text \<open>
  Modelled from the spec: \<^verbatim>\<open>sort.Sort(valSet.validators)\<close> uses the \<^verbatim>\<open>Less\<close> of
  \<^verbatim>\<open>hotstuff.Validators\<close>, declared in another package; the spec gives the order as
  the byte-lexicographic comparison of the identities, which on 20-byte big-endian
  values is the unsigned order of the words. Validators with equal addresses are
  equal values, so the result does not depend on the sorting algorithm.
\<close>

definition sort_validators :: "defaultValidator list \<Rightarrow> defaultValidator list" where
  "sort_validators vs = sort_key Address vs"

definition newDefaultSet :: "address list \<Rightarrow> SelectProposerPolicy \<Rightarrow> defaultSet" where
  "newDefaultSet addrs pol =
     (let vs = sort_validators (map New addrs);
          valSet = \<lparr>validators = vs, policy = pol, proposer = None,
                    selector = roundRobinSelector_fn\<rparr>;
          valSet = (if Size valSet > 0 then valSet\<lparr>proposer := GetByIndex valSet 0\<rparr> else valSet);
          valSet = valSet\<lparr>selector := roundRobinSelector_fn\<rparr>;
          valSet = (if pol = Sticky then valSet\<lparr>selector := stickySelector_fn\<rparr> else valSet);
          valSet = (if pol = VRF then valSet\<lparr>selector := vrfSelector_fn\<rparr> else valSet)
      in valSet)"

text \<open>
  Modelled from the spec: \<^verbatim>\<open>NewSet\<close> is declared in a file that is not part of the
  sources at hand; the spec says that \<^verbatim>\<open>Copy\<close> builds a new set from the address
  list and the policy, which is what the constructor does.
\<close>

definition NewSet :: "address list \<Rightarrow> SelectProposerPolicy \<Rightarrow> defaultSet" where
  "NewSet addrs pol = newDefaultSet addrs pol"

definition AddValidator :: "defaultSet \<Rightarrow> address \<Rightarrow> bool \<times> defaultSet" where
  "AddValidator valSet addr =
     (if list_ex (\<lambda>v. Address v = addr) (validators valSet) then (False, valSet)
      else (True, valSet\<lparr>validators := sort_validators (validators valSet @ [New addr])\<rparr>))"

definition RemoveValidator :: "defaultSet \<Rightarrow> address \<Rightarrow> bool \<times> defaultSet" where
  "RemoveValidator valSet addr =
     (case first_index (validators valSet) addr of
        Some i \<Rightarrow> (True, valSet\<lparr>validators :=
                      take i (validators valSet) @ drop (i + 1) (validators valSet)\<rparr>)
      | None \<Rightarrow> (False, valSet))"

definition Copy :: "defaultSet \<Rightarrow> defaultSet" where
  "Copy valSet = NewSet (map Address (validators valSet)) (policy valSet)"

subsection \<open>Quorum arithmetic\<close>

fun ParticipantsNumber_loop :: "defaultSet \<Rightarrow> address list \<Rightarrow> int \<Rightarrow> int" where
  "ParticipantsNumber_loop valSet [] n = n"
| "ParticipantsNumber_loop valSet (v # list) n =
     (if fst (GetByAddress valSet v) < 0 then ParticipantsNumber_loop valSet list n
      else ParticipantsNumber_loop valSet list (n + 1))"

definition ParticipantsNumber :: "defaultSet \<Rightarrow> address list \<Rightarrow> int" where
  "ParticipantsNumber valSet list =
     (if length list = 0 then 0 else ParticipantsNumber_loop valSet list 0)"

text \<open>
  \<^verbatim>\<open>int(math.Ceil(float64(valSet.Size())/3)) - 1\<close>. The floating-point quotient is
  taken as the real quotient: a size is an integer below \<open>2^53\<close>, so its conversion is
  exact, and rounding the quotient to the nearest double never reaches the next
  integer, so that the ceiling is the ceiling of the exact quotient.
\<close>

definition F :: "defaultSet \<Rightarrow> int" where
  "F valSet = \<lceil>real_of_int (Size valSet) / 3\<rceil> - 1"

definition Q :: "defaultSet \<Rightarrow> int" where
  "Q valSet = Size valSet - F valSet"

definition Policy :: "defaultSet \<Rightarrow> SelectProposerPolicy" where
  "Policy valSet = policy valSet"

fun CheckQuorum_loop :: "defaultSet \<Rightarrow> address list \<Rightarrow> int \<Rightarrow> defaultSet \<times> int" where
  "CheckQuorum_loop vals [] validSeal = (vals, validSeal)"
| "CheckQuorum_loop vals (addr # committers) validSeal =
     (case RemoveValidator vals addr of
        (True, vals') \<Rightarrow> CheckQuorum_loop vals' committers (validSeal + 1)
      | (False, vals') \<Rightarrow> CheckQuorum_loop vals' committers validSeal)"

definition CheckQuorum :: "defaultSet \<Rightarrow> address list \<Rightarrow> error option" where
  "CheckQuorum valSet committers =
     (case CheckQuorum_loop (Copy valSet) committers 0 of
        (vals, validSeal) \<Rightarrow>
          if validSeal \<le> Q vals then Some ErrInvalidParticipant else None)"

definition Cmp :: "defaultSet \<Rightarrow> defaultSet \<Rightarrow> bool" where
  "Cmp valSet src =
     (let n = ParticipantsNumber valSet (AddressList src)
      in if n \<noteq> Size valSet \<or> n \<noteq> Size src then False else True)"

text \<open>
  The length of a Go slice is an \<^verbatim>\<open>int\<close>: a set has fewer than \<open>2^63\<close> members.
\<close>

definition len_fits :: "defaultSet \<Rightarrow> bool" where
  "len_fits valSet = (length (validators valSet) < 2 ^ 63)"

text \<open>
  Only the constructor assigns the field \<^verbatim>\<open>selector\<close>, from the policy: a set has the
  selector that the constructor installs for its policy.
\<close>

definition selector_installed :: "defaultSet \<Rightarrow> bool" where
  "selector_installed valSet = (selector valSet = selector (newDefaultSet [] (policy valSet)))"

subsection \<open>Sequences of mutations\<close>

text \<open>A call of \<^verbatim>\<open>AddValidator\<close> or of \<^verbatim>\<open>RemoveValidator\<close>, and a run of such calls.\<close>

datatype mutation = Add address | Remove address

fun apply_mutation :: "defaultSet \<Rightarrow> mutation \<Rightarrow> defaultSet" where
  "apply_mutation valSet (Add addr) = snd (AddValidator valSet addr)"
| "apply_mutation valSet (Remove addr) = snd (RemoveValidator valSet addr)"

definition apply_mutations :: "defaultSet \<Rightarrow> mutation list \<Rightarrow> defaultSet" where
  "apply_mutations valSet ms = foldl apply_mutation valSet ms"

definition strictly_ascending :: "address list \<Rightarrow> bool" where
  "strictly_ascending as = sorted_wrt (<) as"

subsection \<open>Sets behind pointers\<close>

text \<open>
  The methods have the receiver \<^verbatim>\<open>*defaultSet\<close>, and the field \<^verbatim>\<open>validators\<close> is a
  slice: a pointer to a backing array together with a length, the capacity being that
  of the array. Two slices over one array see each other's writes. The store holds
  the set objects and the backing arrays; a pointer to a set and the array of a slice
  are indices into these lists. Of a backing array the store keeps the cells written
  so far (cells past them are \<^verbatim>\<open>nil\<close> and are never read) and the capacity. The
  validators the cells point to are never modified and are kept by value.
\<close>

record backing =
  cells :: "defaultValidator list"
  cap :: nat

record slice =
  arr :: nat
  len :: nat

record setObject =
  validators_of :: slice
  policy_of :: SelectProposerPolicy
  proposer_of :: "defaultValidator option"
  selector_of :: ProposalSelector

record store =
  objects :: "setObject list"
  arrays :: "backing list"

text \<open>The elements a slice shows, and the value of the set behind a pointer.\<close>

definition slice_list :: "store \<Rightarrow> slice \<Rightarrow> defaultValidator list" where
  "slice_list st sl = take (len sl) (cells (arrays st ! arr sl))"

definition deref :: "store \<Rightarrow> nat \<Rightarrow> defaultSet" where
  "deref st p =
     (let valSet = objects st ! p
      in \<lparr>validators = slice_list st (validators_of valSet), policy = policy_of valSet,
          proposer = proposer_of valSet, selector = selector_of valSet\<rparr>)"

text \<open>
  A pointer is valid when it points to an object whose slice lies inside an array of
  the store.
\<close>

definition valid_ref :: "store \<Rightarrow> nat \<Rightarrow> bool" where
  "valid_ref st p =
     (p < length (objects st) \<and>
      arr (validators_of (objects st ! p)) < length (arrays st) \<and>
      len (validators_of (objects st ! p))
        \<le> length (cells (arrays st ! arr (validators_of (objects st ! p)))))"

text \<open>
  \<^verbatim>\<open>make([]hotstuff.Validator, len(addrs))\<close> followed by the loop that fills every
  cell: a new backing array, of the capacity \<^verbatim>\<open>len(addrs)\<close>.
\<close>

definition make_slice :: "store \<Rightarrow> defaultValidator list \<Rightarrow> store \<times> slice" where
  "make_slice st vs =
     (st\<lparr>arrays := arrays st @ [\<lparr>cells = vs, cap = length vs\<rparr>]\<rparr>,
      \<lparr>arr = length (arrays st), len = length vs\<rparr>)"

text \<open>\<^verbatim>\<open>sort.Sort\<close> permutes the elements of the slice inside its backing array.\<close>

definition sort_slice :: "store \<Rightarrow> slice \<Rightarrow> store" where
  "sort_slice st sl =
     (let a = arrays st ! arr sl
      in st\<lparr>arrays := (arrays st)[arr sl :=
              a\<lparr>cells := sort_validators (take (len sl) (cells a)) @ drop (len sl) (cells a)\<rparr>]\<rparr>)"

text \<open>
  \<^verbatim>\<open>append(s, v)\<close> writes into the backing array of \<open>s\<close> when the capacity allows, and
  otherwise copies the elements into a new array. The capacity of the new array is
  chosen by the Go runtime, which is no part of the sources: the rule is the
  parameter \<open>growslice\<close>, and the new capacity holds at least the new length.
\<close>

definition append_slice ::
  "(nat \<Rightarrow> nat) \<Rightarrow> store \<Rightarrow> slice \<Rightarrow> defaultValidator \<Rightarrow> store \<times> slice" where
  "append_slice growslice st sl v =
     (let a = arrays st ! arr sl
      in if len sl < cap a
         then (st\<lparr>arrays := (arrays st)[arr sl :=
                  a\<lparr>cells := take (len sl) (cells a) @ [v] @ drop (len sl + 1) (cells a)\<rparr>]\<rparr>,
               sl\<lparr>len := len sl + 1\<rparr>)
         else (st\<lparr>arrays := arrays st @
                  [\<lparr>cells = take (len sl) (cells a) @ [v],
                    cap = max (len sl + 1) (growslice (cap a))\<rparr>]\<rparr>,
               \<lparr>arr = length (arrays st), len = len sl + 1\<rparr>))"

text \<open>
  The constructor on the store. The slice is made, filled and sorted in place; the
  other fields are those that \<open>newDefaultSet\<close> above computes.
\<close>

definition newDefaultSet_st ::
  "store \<Rightarrow> address list \<Rightarrow> SelectProposerPolicy \<Rightarrow> store \<times> nat" where
  "newDefaultSet_st st addrs pol =
     (case make_slice st (map New addrs) of
        (st1, sl) \<Rightarrow>
          let st2 = sort_slice st1 sl;
              valSet = \<lparr>validators_of = sl, policy_of = policy (newDefaultSet addrs pol),
                        proposer_of = proposer (newDefaultSet addrs pol),
                        selector_of = selector (newDefaultSet addrs pol)\<rparr>
          in (st2\<lparr>objects := objects st2 @ [valSet]\<rparr>, length (objects st2)))"

text \<open>
  Modelled from the spec: \<^verbatim>\<open>NewSet\<close> on the store, as \<open>NewSet\<close> above: it runs the
  constructor.
\<close>

definition NewSet_st ::
  "store \<Rightarrow> address list \<Rightarrow> SelectProposerPolicy \<Rightarrow> store \<times> nat" where
  "NewSet_st st addrs pol = newDefaultSet_st st addrs pol"

text \<open>\<^verbatim>\<open>List\<close> returns the slice of the set itself, not a copy of its elements.\<close>

definition List_st :: "store \<Rightarrow> nat \<Rightarrow> slice" where
  "List_st st p = validators_of (objects st ! p)"

text \<open>
  \<^verbatim>\<open>Copy\<close> collects the addresses in a slice of addresses of its own, which the
  constructor only reads, and builds the new set from them.
\<close>

definition Copy_st :: "store \<Rightarrow> nat \<Rightarrow> store \<times> nat" where
  "Copy_st st p =
     (let valSet = objects st ! p;
          addresses = map Address (slice_list st (validators_of valSet))
      in NewSet_st st addresses (policy_of valSet))"

definition AddValidator_st :: "(nat \<Rightarrow> nat) \<Rightarrow> store \<Rightarrow> nat \<Rightarrow> address \<Rightarrow> bool \<times> store" where
  "AddValidator_st growslice st p addr =
     (let valSet = objects st ! p
      in if list_ex (\<lambda>v. Address v = addr) (slice_list st (validators_of valSet))
         then (False, st)
         else case append_slice growslice st (validators_of valSet) (New addr) of
                (st1, sl) \<Rightarrow>
                  let st2 = st1\<lparr>objects := (objects st1)[p := valSet\<lparr>validators_of := sl\<rparr>]\<rparr>
                  in (True, sort_slice st2 sl))"

text \<open>
  \<^verbatim>\<open>append(vs[:i], vs[i+1:]...)\<close> has room in the array of \<open>vs\<close>: it moves the elements
  after index \<open>i\<close> one cell down, in place, and the cell of the former last element
  keeps its content.
\<close>

definition RemoveValidator_st :: "store \<Rightarrow> nat \<Rightarrow> address \<Rightarrow> bool \<times> store" where
  "RemoveValidator_st st p addr =
     (let valSet = objects st ! p; sl = validators_of valSet
      in case first_index (slice_list st sl) addr of
           Some i \<Rightarrow>
             let a = arrays st ! arr sl;
                 a' = a\<lparr>cells := take i (cells a) @
                                  drop (i + 1) (take (len sl) (cells a)) @
                                  drop (len sl - 1) (cells a)\<rparr>
             in (True, st\<lparr>arrays := (arrays st)[arr sl := a'],
                          objects := (objects st)[p := valSet\<lparr>validators_of :=
                                        sl\<lparr>len := len sl - 1\<rparr>\<rparr>]\<rparr>)
         | None \<Rightarrow> (False, st))"

fun apply_mutation_st :: "(nat \<Rightarrow> nat) \<Rightarrow> nat \<Rightarrow> store \<Rightarrow> mutation \<Rightarrow> store" where
  "apply_mutation_st growslice p st (Add addr) = snd (AddValidator_st growslice st p addr)"
| "apply_mutation_st growslice p st (Remove addr) = snd (RemoveValidator_st st p addr)"

definition apply_mutations_st ::
  "(nat \<Rightarrow> nat) \<Rightarrow> nat \<Rightarrow> store \<Rightarrow> mutation list \<Rightarrow> store" where
  "apply_mutations_st growslice p st ms = foldl (apply_mutation_st growslice p) st ms"

text \<open>
  A store to try the operations on: the set built from \<open>[3, 1, 2]\<close> with the policy
  Sticky is its only object; and a capacity rule that doubles.
\<close>

definition example_store :: store where
  "example_store = fst (newDefaultSet_st \<lparr>objects = [], arrays = []\<rparr> [3, 1, 2] Sticky)"

definition double_cap :: "nat \<Rightarrow> nat" where
  "double_cap n = 2 * n"

subsection \<open>Lists of validators\<close>

lemma New_Address [simp]: "New (Address v) = v"
  by (cases v) simp

lemma Address_eq_iff: "Address v = Address w \<longleftrightarrow> v = w"
  by (cases v, cases w) simp

lemma New_o_Address [simp]: "New \<circ> Address = id"
  by (rule ext) simp

lemma Address_o_New [simp]: "Address \<circ> New = id"
  by (rule ext) simp

lemma first_index_None_iff: "first_index vs a = None \<longleftrightarrow> a \<notin> Address ` set vs"
  by (induction vs) auto

lemma first_index_Some_less: "first_index vs a = Some i \<Longrightarrow> i < length vs"
  by (induction vs arbitrary: i) (auto split: if_splits)

lemma first_index_Some_nth: "first_index vs a = Some i \<Longrightarrow> Address (vs ! i) = a"
  by (induction vs arbitrary: i) (auto split: if_splits)

lemma first_index_Some_first:
  "first_index vs a = Some i \<Longrightarrow> j < i \<Longrightarrow> Address (vs ! j) \<noteq> a"
proof (induction vs arbitrary: i j)
  case Nil
  then show ?case by simp
next
  case (Cons v vs)
  show ?case
  proof (cases "a = Address v")
    case True
    with Cons.prems show ?thesis by simp
  next
    case False
    with Cons.prems obtain k where k: "first_index vs a = Some k" "i = Suc k"
      by auto
    show ?thesis
    proof (cases j)
      case 0
      with False show ?thesis by auto
    next
      case (Suc j')
      with Cons.prems k have "j' < k" by simp
      from Cons.IH [OF k(1) this] Suc show ?thesis by simp
    qed
  qed
qed

lemma first_index_remove1:
  "first_index vs a = Some i \<Longrightarrow> take i vs @ drop (Suc i) vs = remove1 (New a) vs"
proof (induction vs arbitrary: i)
  case Nil
  then show ?case by simp
next
  case (Cons v vs)
  show ?case
  proof (cases "a = Address v")
    case True
    with Cons.prems show ?thesis by auto
  next
    case False
    with Cons.prems obtain k where k: "first_index vs a = Some k" "i = Suc k"
      by auto
    from False have "New a \<noteq> v" by auto
    with Cons.IH [OF k(1)] k(2) show ?thesis by simp
  qed
qed

lemma first_index_hd:
  "vs \<noteq> [] \<Longrightarrow> first_index vs (Address (vs ! 0)) = Some 0"
  by (cases vs) simp_all

lemma list_ex_Address: "list_ex (\<lambda>v. Address v = a) vs \<longleftrightarrow> a \<in> Address ` set vs"
  by (auto simp: list_ex_iff)

lemma Address_sort_validators: "map Address (sort_validators vs) = sort (map Address vs)"
proof -
  have "mset (map Address (sort_key Address vs)) = mset (map Address vs)"
    by simp
  moreover have "sorted (map Address (sort_key Address vs))"
    by simp
  ultimately have "sort (map Address vs) = map Address (sort_key Address vs)"
    by (rule properties_for_sort)
  then show ?thesis by (simp add: sort_validators_def)
qed

lemma sort_validators_eq: "sort_validators vs = map New (sort (map Address vs))"
proof -
  have "map New (map Address (sort_validators vs)) = map New (sort (map Address vs))"
    by (simp only: Address_sort_validators)
  then show ?thesis by simp
qed

lemma length_sort_validators [simp]: "length (sort_validators vs) = length vs"
  by (simp add: sort_validators_def)

lemma set_sort_validators [simp]: "set (sort_validators vs) = set vs"
  by (simp add: sort_validators_def)

lemma sort_validators_id:
  "sorted (map Address vs) \<Longrightarrow> sort_validators vs = vs"
  by (simp add: sort_validators_def sort_key_id_if_sorted)

lemma validators_newDefaultSet:
  "validators (newDefaultSet addrs pol) = sort_validators (map New addrs)"
  by (simp add: newDefaultSet_def Let_def)

lemma policy_newDefaultSet: "policy (newDefaultSet addrs pol) = pol"
  by (simp add: newDefaultSet_def Let_def)

lemma AddressList_newDefaultSet: "AddressList (newDefaultSet addrs pol) = sort addrs"
  by (simp add: AddressList_def List_def validators_newDefaultSet Address_sort_validators)

lemma validators_AddValidator:
  "validators (snd (AddValidator s a)) =
     (if a \<in> Address ` set (validators s) then validators s
      else sort_validators (validators s @ [New a]))"
  by (simp add: AddValidator_def list_ex_Address)

lemma validators_RemoveValidator:
  "validators (snd (RemoveValidator s a)) = remove1 (New a) (validators s)"
proof (cases "first_index (validators s) a")
  case None
  then have "New a \<notin> set (validators s)"
    by (force simp: first_index_None_iff)
  with None show ?thesis
    by (simp add: RemoveValidator_def remove1_idem)
next
  case (Some i)
  then show ?thesis
    by (simp add: RemoveValidator_def first_index_remove1)
qed

lemma fst_RemoveValidator:
  "fst (RemoveValidator s a) \<longleftrightarrow> a \<in> Address ` set (validators s)"
proof (cases "first_index (validators s) a")
  case None
  then show ?thesis
    by (simp add: RemoveValidator_def first_index_None_iff [symmetric])
next
  case (Some i)
  then have "first_index (validators s) a \<noteq> None" by simp
  then have "a \<in> Address ` set (validators s)"
    by (simp only: first_index_None_iff not_not)
  with Some show ?thesis
    by (simp add: RemoveValidator_def)
qed

lemma fst_AddValidator:
  "fst (AddValidator s a) \<longleftrightarrow> a \<notin> Address ` set (validators s)"
  by (simp add: AddValidator_def list_ex_Address)

lemma AddressList_AddValidator:
  "AddressList (snd (AddValidator s a)) =
     (if a \<in> set (AddressList s) then AddressList s else sort (AddressList s @ [a]))"
  by (simp add: AddressList_def List_def validators_AddValidator Address_sort_validators)

lemma map_Address_remove1: "map Address (remove1 v vs) = remove1 (Address v) (map Address vs)"
  by (induction vs) (auto simp: Address_eq_iff)

lemma AddressList_RemoveValidator:
  "AddressList (snd (RemoveValidator s a)) = remove1 a (AddressList s)"
  by (simp add: AddressList_def List_def validators_RemoveValidator map_Address_remove1)

subsection \<open>The sort invariant\<close>

lemma sorted_AddressList_mutation:
  "sorted (AddressList s) \<Longrightarrow> sorted (AddressList (apply_mutation s m))"
  by (cases m) (simp_all add: AddressList_AddValidator AddressList_RemoveValidator sorted_remove1)

lemma distinct_AddressList_mutation:
  "distinct (AddressList s) \<Longrightarrow> distinct (AddressList (apply_mutation s m))"
  by (cases m) (simp_all add: AddressList_AddValidator AddressList_RemoveValidator)

lemma sorted_AddressList_mutations:
  "sorted (AddressList s) \<Longrightarrow> sorted (AddressList (apply_mutations s ms))"
  unfolding apply_mutations_def
  by (induction ms arbitrary: s) (simp_all add: sorted_AddressList_mutation)

lemma distinct_AddressList_mutations:
  "distinct (AddressList s) \<Longrightarrow> distinct (AddressList (apply_mutations s ms))"
  unfolding apply_mutations_def
  by (induction ms arbitrary: s) (simp_all add: distinct_AddressList_mutation)

lemma strictly_ascending_mutations:
  "strictly_ascending (AddressList s) \<Longrightarrow> strictly_ascending (AddressList (apply_mutations s ms))"
  by (simp add: strictly_ascending_def strict_sorted_iff sorted_AddressList_mutations
      distinct_AddressList_mutations)

lemma sorted_from_construction:
  "sorted (AddressList (apply_mutations (newDefaultSet addrs pol) ms))"
  by (rule sorted_AddressList_mutations) (simp add: AddressList_newDefaultSet)

lemma strictly_ascending_from_distinct:
  assumes "distinct addrs"
  shows "strictly_ascending (AddressList (apply_mutations (newDefaultSet addrs pol) ms))"
proof (rule strictly_ascending_mutations)
  from assms show "strictly_ascending (AddressList (newDefaultSet addrs pol))"
    by (simp add: AddressList_newDefaultSet strictly_ascending_def strict_sorted_iff)
qed

text \<open>
  Claim C3 at a list with a repeated address. The constructor sorts the validators
  and has no check for an address that is already there, which \<^verbatim>\<open>AddValidator\<close> has:
  built from the list \<open>[1, 1]\<close> the set holds the address 1 twice, and its address list
  \<open>[1, 1]\<close> is not strictly ascending, while adding the address 1 to the set built from
  \<open>[1]\<close> is refused and leaves that set as it is. The claim asks for a strictly ascending
  list for every input list.
\<close>

theorem C3_constructor_keeps_duplicates:
  "AddressList (newDefaultSet [1, 1] RoundRobin) = [1, 1] \<and>
   \<not> strictly_ascending (AddressList (newDefaultSet [1, 1] RoundRobin)) \<and>
   AddValidator (newDefaultSet [1] RoundRobin) 1 = (False, newDefaultSet [1] RoundRobin)"
  by code_simp

subsection \<open>Fault bound and quorum size\<close>

lemma ceiling_third: "\<lceil>real_of_int n / 3\<rceil> = (n + 2) div 3"
proof -
  have "\<lceil>real_of_int n / real_of_int 3\<rceil> = - (- n div 3)"
    by (rule ceiling_divide_eq_div)
  then show ?thesis by simp
qed

lemma F_div: "F s = (Size s + 2) div 3 - 1"
  by (simp add: F_def ceiling_third)

lemma Size_newDefaultSet: "Size (newDefaultSet addrs pol) = int (length addrs)"
  by (simp add: Size_def validators_newDefaultSet)

text \<open>
  A set of size 10 tolerates three faulty members and has the quorum 7: the ceiling
  of 10/3 is 4.
\<close>

theorem C2_fault_quorum_counterexample:
  "\<not> (F (newDefaultSet [1, 2, 3, 4, 5, 6, 7, 8, 9, 10] RoundRobin) = 2 \<and>
      Q (newDefaultSet [1, 2, 3, 4, 5, 6, 7, 8, 9, 10] RoundRobin) = 8)"
  by (simp add: F_div Q_def Size_newDefaultSet)

text \<open>
  Claim C2, as the code has it. For every validator set, \<open>F\<close> is the ceiling of a third
  of the size, minus one (in integers: \<open>(Size + 2) div 3 - 1\<close>), and \<open>Q\<close> is the size minus
  \<open>F\<close>. Size 1 gives \<open>F = 0\<close>, \<open>Q = 1\<close>; size 4 gives \<open>F = 1\<close>, \<open>Q = 3\<close>; size 7 gives
  \<open>F = 2\<close>, \<open>Q = 5\<close>; size 10 gives \<open>F = 3\<close>, \<open>Q = 7\<close>.
\<close>

theorem C2_fault_quorum:
  "F valSet = \<lceil>real_of_int (Size valSet) / 3\<rceil> - 1 \<and>
   F valSet = (Size valSet + 2) div 3 - 1 \<and>
   Q valSet = Size valSet - F valSet \<and>
   (Size valSet = 1 \<longrightarrow> F valSet = 0 \<and> Q valSet = 1) \<and>
   (Size valSet = 4 \<longrightarrow> F valSet = 1 \<and> Q valSet = 3) \<and>
   (Size valSet = 7 \<longrightarrow> F valSet = 2 \<and> Q valSet = 5) \<and>
   (Size valSet = 10 \<longrightarrow> F valSet = 3 \<and> Q valSet = 7)"
  by (simp add: F_div Q_def ceiling_third)

text \<open>The four sizes of the table, on sets built by the constructor.\<close>

theorem C2_fault_quorum_witness:
  "Size (newDefaultSet [1] RoundRobin) = 1 \<and>
   F (newDefaultSet [1] RoundRobin) = 0 \<and> Q (newDefaultSet [1] RoundRobin) = 1 \<and>
   Size (newDefaultSet [1, 2, 3, 4] RoundRobin) = 4 \<and>
   F (newDefaultSet [1, 2, 3, 4] RoundRobin) = 1 \<and> Q (newDefaultSet [1, 2, 3, 4] RoundRobin) = 3 \<and>
   Size (newDefaultSet [1, 2, 3, 4, 5, 6, 7] Sticky) = 7 \<and>
   F (newDefaultSet [1, 2, 3, 4, 5, 6, 7] Sticky) = 2 \<and>
   Q (newDefaultSet [1, 2, 3, 4, 5, 6, 7] Sticky) = 5 \<and>
   Size (newDefaultSet [1, 2, 3, 4, 5, 6, 7, 8, 9, 10] VRF) = 10 \<and>
   F (newDefaultSet [1, 2, 3, 4, 5, 6, 7, 8, 9, 10] VRF) = 3 \<and>
   Q (newDefaultSet [1, 2, 3, 4, 5, 6, 7, 8, 9, 10] VRF) = 7"
proof -
  have s1: "Size (newDefaultSet [1] RoundRobin) = 1"
    and s4: "Size (newDefaultSet [1, 2, 3, 4] RoundRobin) = 4"
    and s7: "Size (newDefaultSet [1, 2, 3, 4, 5, 6, 7] Sticky) = 7"
    and s10: "Size (newDefaultSet [1, 2, 3, 4, 5, 6, 7, 8, 9, 10] VRF) = 10"
    by (simp_all add: Size_newDefaultSet)
  from C2_fault_quorum [of "newDefaultSet [1] RoundRobin"] s1
  have a: "F (newDefaultSet [1] RoundRobin) = 0 \<and> Q (newDefaultSet [1] RoundRobin) = 1"
    by blast
  from C2_fault_quorum [of "newDefaultSet [1, 2, 3, 4] RoundRobin"] s4
  have b: "F (newDefaultSet [1, 2, 3, 4] RoundRobin) = 1 \<and>
           Q (newDefaultSet [1, 2, 3, 4] RoundRobin) = 3"
    by blast
  from C2_fault_quorum [of "newDefaultSet [1, 2, 3, 4, 5, 6, 7] Sticky"] s7
  have c: "F (newDefaultSet [1, 2, 3, 4, 5, 6, 7] Sticky) = 2 \<and>
           Q (newDefaultSet [1, 2, 3, 4, 5, 6, 7] Sticky) = 5"
    by blast
  from C2_fault_quorum [of "newDefaultSet [1, 2, 3, 4, 5, 6, 7, 8, 9, 10] VRF"] s10
  have d: "F (newDefaultSet [1, 2, 3, 4, 5, 6, 7, 8, 9, 10] VRF) = 3 \<and>
           Q (newDefaultSet [1, 2, 3, 4, 5, 6, 7, 8, 9, 10] VRF) = 7"
    by blast
  from s1 s4 s7 s10 a b c d show ?thesis by blast
qed

subsection \<open>Indices and seeds\<close>

lemma unat_uint64_of_int: "n < 2 ^ 64 \<Longrightarrow> unat (uint64_of_int (int n)) = n"
  by (simp add: uint64_of_int_def unat_of_nat)

lemma len_fits_unat: "len_fits s \<Longrightarrow> unat (uint64_of_int (Size s)) = length (validators s)"
proof -
  assume "len_fits s"
  then have "length (validators s) < 2 ^ 64"
    by (simp add: len_fits_def)
  then show ?thesis
    unfolding Size_def by (rule unat_uint64_of_int)
qed

lemma GetByIndex_Some:
  assumes "len_fits s" and "unat i < length (validators s)"
  shows "GetByIndex s i = Some (validators s ! unat i)"
  using assms by (simp add: GetByIndex_def word_less_nat_alt len_fits_unat)

lemma GetByIndex_None:
  assumes "len_fits s" and "length (validators s) \<le> unat i"
  shows "GetByIndex s i = None"
  using assms by (simp add: GetByIndex_def word_less_nat_alt len_fits_unat)

lemma pick_less:
  assumes "len_fits s" and "validators s \<noteq> []"
  shows "unat (seed mod uint64_of_int (Size s)) = unat seed mod length (validators s)"
    and "unat (seed mod uint64_of_int (Size s)) < length (validators s)"
  using assms by (simp_all add: unat_mod len_fits_unat)

lemma select_pick:
  assumes "len_fits s" and "validators s \<noteq> []"
  shows "GetByIndex s (seed mod uint64_of_int (Size s)) =
         Some (validators s ! (unat seed mod length (validators s)))"
  using GetByIndex_Some [OF assms(1) pick_less(2) [OF assms]] pick_less(1) [OF assms]
  by simp

lemma GetByAddress_member:
  "first_index (validators s) a = Some i \<Longrightarrow>
   GetByAddress s a = (int i, Some (validators s ! i))"
  by (simp add: GetByAddress_def List_def)

lemma GetByAddress_absent:
  "first_index (validators s) a = None \<Longrightarrow> GetByAddress s a = (-1, None)"
  by (simp add: GetByAddress_def List_def)

lemma calcSeed_member:
  "first_index (validators s) a = Some i \<Longrightarrow> calcSeed s a r = of_nat i + r"
  by (simp add: calcSeed_def GetByAddress_member uint64_of_int_def)

lemma calcSeed_absent:
  "first_index (validators s) a = None \<Longrightarrow> calcSeed s a r = r"
  by (simp add: calcSeed_def GetByAddress_absent uint64_of_int_def)

lemma Size_eq_0_iff: "Size s = 0 \<longleftrightarrow> validators s = []"
  by (simp add: Size_def)

lemma roundRobinSelector_pick:
  assumes "len_fits s" and "validators s \<noteq> []"
  shows "roundRobinSelector s p r =
         Some (validators s !
                 (unat (if p = 0 then r else calcSeed s p r + 1) mod length (validators s)))"
  using assms select_pick [OF assms]
  by (simp add: roundRobinSelector_def Size_eq_0_iff emptyAddress_def Let_def)

lemma stickySelector_pick:
  assumes "len_fits s" and "validators s \<noteq> []"
  shows "stickySelector s p r =
         Some (validators s !
                 (unat (if p = 0 then r else calcSeed s p r) mod length (validators s)))"
  using assms select_pick [OF assms]
  by (simp add: stickySelector_def Size_eq_0_iff emptyAddress_def Let_def)

subsection \<open>The selectors\<close>

lemma unat_seed_plain:
  "i + unat (r :: uint64) + 1 < 2 ^ 64 \<Longrightarrow> unat (of_nat i + r + 1) = i + unat r + 1"
  by (simp add: unat_word_ariths unat_of_nat)

text \<open>
  The zero address can be a member, and then it is the member at index 0. Passed as
  last proposer it counts as no last proposer, and the round-robin selector stays at
  index 0 in round 0.
\<close>

theorem C4_selectors_counterexample:
  "\<not> (roundRobinSelector (newDefaultSet [0, 5] RoundRobin)
         (Address (validators (newDefaultSet [0, 5] RoundRobin) ! 0)) 0 =
       Some (validators (newDefaultSet [0, 5] RoundRobin) !
               (1 mod length (validators (newDefaultSet [0, 5] RoundRobin)))))"
  by code_simp

text \<open>
  Claim C4, as the code has it. For every non-empty validator set, RoundRobin selects
  the member at index \<open>seed mod Size\<close>, where \<open>seed\<close> is the round when the last proposer
  is the zero identity and is \<open>index_of(lastProposer) + round + 1\<close>, computed in
  \<^verbatim>\<open>uint64\<close>, when the last proposer is a non-zero member; Sticky is the same without
  the \<open>+ 1\<close>. With the last proposer equal to the member at index 0, that member not
  being the zero identity, and round 0, Sticky returns the member at index 0 and
  RoundRobin the member at index \<open>1 mod Size\<close>.
\<close>

theorem C4_selectors:
  assumes "len_fits valSet" and "validators valSet \<noteq> []"
  shows
    "roundRobinSelector valSet 0 rnd =
       Some (validators valSet ! (unat rnd mod length (validators valSet))) \<and>
     stickySelector valSet 0 rnd =
       Some (validators valSet ! (unat rnd mod length (validators valSet))) \<and>
     (lastProposer \<noteq> 0 \<and> first_index (validators valSet) lastProposer = Some i \<longrightarrow>
        roundRobinSelector valSet lastProposer rnd =
          Some (validators valSet ! (unat (of_nat i + rnd + 1 :: uint64) mod length (validators valSet))) \<and>
        stickySelector valSet lastProposer rnd =
          Some (validators valSet ! (unat (of_nat i + rnd :: uint64) mod length (validators valSet))) \<and>
        (i + unat rnd + 1 < 2 ^ 64 \<longrightarrow>
           roundRobinSelector valSet lastProposer rnd =
             Some (validators valSet ! ((i + unat rnd + 1) mod length (validators valSet))) \<and>
           stickySelector valSet lastProposer rnd =
             Some (validators valSet ! ((i + unat rnd) mod length (validators valSet))))) \<and>
     (Address (validators valSet ! 0) \<noteq> 0 \<longrightarrow>
        stickySelector valSet (Address (validators valSet ! 0)) 0 = Some (validators valSet ! 0) \<and>
        roundRobinSelector valSet (Address (validators valSet ! 0)) 0 =
          Some (validators valSet ! (1 mod length (validators valSet))))"
proof -
  note rr = roundRobinSelector_pick [OF assms]
  note st = stickySelector_pick [OF assms]
  have a: "roundRobinSelector valSet 0 rnd =
       Some (validators valSet ! (unat rnd mod length (validators valSet)))"
    by (simp add: rr)
  have b: "stickySelector valSet 0 rnd =
       Some (validators valSet ! (unat rnd mod length (validators valSet)))"
    by (simp add: st)
  have c: "roundRobinSelector valSet lastProposer rnd =
          Some (validators valSet ! (unat (of_nat i + rnd + 1 :: uint64) mod length (validators valSet)))"
    and d: "stickySelector valSet lastProposer rnd =
          Some (validators valSet ! (unat (of_nat i + rnd :: uint64) mod length (validators valSet)))"
    if "lastProposer \<noteq> 0" "first_index (validators valSet) lastProposer = Some i"
    using that by (simp_all add: rr st calcSeed_member)
  have e: "unat (of_nat i + rnd + 1 :: uint64) = i + unat rnd + 1"
    and f: "unat (of_nat i + rnd :: uint64) = i + unat rnd"
    if "i + unat rnd + 1 < 2 ^ 64"
    using that by (simp_all add: unat_word_ariths unat_of_nat)
  have g: "stickySelector valSet (Address (validators valSet ! 0)) 0 = Some (validators valSet ! 0)"
    and h: "roundRobinSelector valSet (Address (validators valSet ! 0)) 0 =
          Some (validators valSet ! (1 mod length (validators valSet)))"
    if "Address (validators valSet ! 0) \<noteq> 0"
    using that assms(2)
    by (simp_all add: rr st calcSeed_member [OF first_index_hd])
  from a b c d e f g h show ?thesis by simp
qed

text \<open>
  The set built from \<open>[3, 1, 2]\<close>, with the last proposer 2 (at index 1) in round 4,
  and with the last proposer 1 (at index 0) in round 0.
\<close>

theorem C4_selectors_witness:
  "len_fits (newDefaultSet [3, 1, 2] RoundRobin) \<and> validators (newDefaultSet [3, 1, 2] RoundRobin) \<noteq> [] \<and>
   (2 :: address) \<noteq> 0 \<and> first_index (validators (newDefaultSet [3, 1, 2] RoundRobin)) 2 = Some 1 \<and>
   1 + unat (4 :: uint64) + 1 < 2 ^ 64 \<and>
   Address (validators (newDefaultSet [3, 1, 2] RoundRobin) ! 0) \<noteq> 0 \<and>
   roundRobinSelector (newDefaultSet [3, 1, 2] RoundRobin) 2 4 = Some (New 1) \<and>
   stickySelector (newDefaultSet [3, 1, 2] RoundRobin) 2 4 = Some (New 3) \<and>
   stickySelector (newDefaultSet [3, 1, 2] RoundRobin) (Address (validators (newDefaultSet [3, 1, 2] RoundRobin) ! 0)) 0 = Some (New 1) \<and>
   roundRobinSelector (newDefaultSet [3, 1, 2] RoundRobin) (Address (validators (newDefaultSet [3, 1, 2] RoundRobin) ! 0)) 0 = Some (New 2)"
proof -
  have vs: "validators (newDefaultSet [3, 1, 2] RoundRobin) = [New 1, New 2, New 3]"
    by code_simp
  have h1: "len_fits (newDefaultSet [3, 1, 2] RoundRobin)"
    by (simp add: len_fits_def vs)
  have h2: "validators (newDefaultSet [3, 1, 2] RoundRobin) \<noteq> []"
    by (simp add: vs)
  have h3: "(2 :: address) \<noteq> 0 \<and> first_index (validators (newDefaultSet [3, 1, 2] RoundRobin)) 2 = Some 1"
    by (simp add: vs)
  have h4: "1 + unat (4 :: uint64) + 1 < 2 ^ 64"
    by simp
  have h5: "Address (validators (newDefaultSet [3, 1, 2] RoundRobin) ! 0) \<noteq> 0"
    by (simp add: vs)
  from C4_selectors [OF h1 h2, where lastProposer = 2 and i = 1 and rnd = 4] h3 h4 h5
  have "roundRobinSelector (newDefaultSet [3, 1, 2] RoundRobin) 2 4 = Some (validators (newDefaultSet [3, 1, 2] RoundRobin) ! ((1 + unat (4 :: uint64) + 1) mod length (validators (newDefaultSet [3, 1, 2] RoundRobin)))) \<and>
        stickySelector (newDefaultSet [3, 1, 2] RoundRobin) 2 4 = Some (validators (newDefaultSet [3, 1, 2] RoundRobin) ! ((1 + unat (4 :: uint64)) mod length (validators (newDefaultSet [3, 1, 2] RoundRobin)))) \<and>
        stickySelector (newDefaultSet [3, 1, 2] RoundRobin) (Address (validators (newDefaultSet [3, 1, 2] RoundRobin) ! 0)) 0 = Some (validators (newDefaultSet [3, 1, 2] RoundRobin) ! 0) \<and>
        roundRobinSelector (newDefaultSet [3, 1, 2] RoundRobin) (Address (validators (newDefaultSet [3, 1, 2] RoundRobin) ! 0)) 0 =
          Some (validators (newDefaultSet [3, 1, 2] RoundRobin) ! (1 mod length (validators (newDefaultSet [3, 1, 2] RoundRobin))))"
    by blast
  then have "roundRobinSelector (newDefaultSet [3, 1, 2] RoundRobin) 2 4 = Some (New 1) \<and>
        stickySelector (newDefaultSet [3, 1, 2] RoundRobin) 2 4 = Some (New 3) \<and>
        stickySelector (newDefaultSet [3, 1, 2] RoundRobin) (Address (validators (newDefaultSet [3, 1, 2] RoundRobin) ! 0)) 0 = Some (New 1) \<and>
        roundRobinSelector (newDefaultSet [3, 1, 2] RoundRobin) (Address (validators (newDefaultSet [3, 1, 2] RoundRobin) ! 0)) 0 = Some (New 2)"
    by (simp add: vs)
  with h1 h2 h3 h4 h5 show ?thesis by blast
qed

subsection \<open>A last proposer outside the set\<close>

lemma first_index_absent:
  "a \<notin> set (AddressList s) \<Longrightarrow> first_index (validators s) a = None"
  by (simp add: first_index_None_iff AddressList_def List_def)

text \<open>
  When the zero address is the member at index 0, a last proposer outside the set and
  the member at index 0 as last proposer give different round-robin picks.
\<close>

theorem C10_unknown_proposer_counterexample:
  "\<not> (roundRobinSelector (newDefaultSet [0, 5] RoundRobin) 7 0 =
       roundRobinSelector (newDefaultSet [0, 5] RoundRobin)
         (Address (validators (newDefaultSet [0, 5] RoundRobin) ! 0)) 0)"
  by code_simp

text \<open>
  Claim C10, as the code has it. When the last proposer is a non-zero identity that
  is not a member of the set, both strategies take its index as 0: for every non-empty
  set, RoundRobin selects the member at index \<open>(round + 1) mod Size\<close>, the sum computed
  in \<^verbatim>\<open>uint64\<close>, and Sticky the member at index \<open>round mod Size\<close>. Sticky gives the
  same result when the last proposer is the member at index 0, and so does RoundRobin
  when that member is not the zero identity.
\<close>

theorem C10_unknown_proposer:
  assumes "len_fits valSet" and "validators valSet \<noteq> []"
    and "lastProposer \<noteq> 0" and "lastProposer \<notin> set (AddressList valSet)"
  shows
    "calcSeed valSet lastProposer rnd = uint64_of_int 0 + rnd \<and>
     roundRobinSelector valSet lastProposer rnd =
       Some (validators valSet ! (unat (rnd + 1) mod length (validators valSet))) \<and>
     stickySelector valSet lastProposer rnd =
       Some (validators valSet ! (unat rnd mod length (validators valSet))) \<and>
     (unat rnd + 1 < 2 ^ 64 \<longrightarrow>
        roundRobinSelector valSet lastProposer rnd =
          Some (validators valSet ! ((unat rnd + 1) mod length (validators valSet)))) \<and>
     stickySelector valSet lastProposer rnd =
       stickySelector valSet (Address (validators valSet ! 0)) rnd \<and>
     (Address (validators valSet ! 0) \<noteq> 0 \<longrightarrow>
        roundRobinSelector valSet lastProposer rnd =
          roundRobinSelector valSet (Address (validators valSet ! 0)) rnd)"
proof -
  note rr = roundRobinSelector_pick [OF assms(1,2)]
  note st = stickySelector_pick [OF assms(1,2)]
  have seed: "calcSeed valSet lastProposer rnd = rnd"
    using assms(4) by (simp add: calcSeed_absent first_index_absent)
  have seed0: "calcSeed valSet (Address (validators valSet ! 0)) rnd = rnd"
    using assms(2) by (simp add: calcSeed_member [OF first_index_hd])
  have a: "calcSeed valSet lastProposer rnd = uint64_of_int 0 + rnd"
    by (simp add: seed uint64_of_int_def)
  have b: "roundRobinSelector valSet lastProposer rnd =
       Some (validators valSet ! (unat (rnd + 1) mod length (validators valSet)))"
    using assms(3) by (simp add: rr seed)
  have c: "stickySelector valSet lastProposer rnd =
       Some (validators valSet ! (unat rnd mod length (validators valSet)))"
    using assms(3) by (simp add: st seed)
  have d: "unat (rnd + 1) = unat rnd + 1" if "unat rnd + 1 < 2 ^ 64"
    using that by (simp add: unat_word_ariths)
  have e: "stickySelector valSet (Address (validators valSet ! 0)) rnd =
       Some (validators valSet ! (unat rnd mod length (validators valSet)))"
    by (simp add: st seed0)
  have f: "roundRobinSelector valSet (Address (validators valSet ! 0)) rnd =
       Some (validators valSet ! (unat (rnd + 1) mod length (validators valSet)))"
    if "Address (validators valSet ! 0) \<noteq> 0"
    using that by (simp add: rr seed0)
  from a b c d e f show ?thesis by simp
qed

text \<open>
  The set built from \<open>[3, 1, 2]\<close> and the last proposer 9, which is not a member, in
  round 4: RoundRobin picks index \<open>5 mod 3\<close> and Sticky index \<open>4 mod 3\<close>.
\<close>

theorem C10_unknown_proposer_witness:
  "len_fits (newDefaultSet [3, 1, 2] RoundRobin) \<and>
   validators (newDefaultSet [3, 1, 2] RoundRobin) \<noteq> [] \<and>
   (9 :: address) \<noteq> 0 \<and>
   9 \<notin> set (AddressList (newDefaultSet [3, 1, 2] RoundRobin)) \<and>
   unat (4 :: uint64) + 1 < 2 ^ 64 \<and>
   Address (validators (newDefaultSet [3, 1, 2] RoundRobin) ! 0) \<noteq> 0 \<and>
   roundRobinSelector (newDefaultSet [3, 1, 2] RoundRobin) 9 4 = Some (New 3) \<and>
   stickySelector (newDefaultSet [3, 1, 2] RoundRobin) 9 4 = Some (New 2) \<and>
   roundRobinSelector (newDefaultSet [3, 1, 2] RoundRobin)
     (Address (validators (newDefaultSet [3, 1, 2] RoundRobin) ! 0)) 4 = Some (New 3)"
proof -
  have vs: "validators (newDefaultSet [3, 1, 2] RoundRobin) = [New 1, New 2, New 3]"
    by code_simp
  have h1: "len_fits (newDefaultSet [3, 1, 2] RoundRobin)"
    by (simp add: len_fits_def vs)
  have h2: "validators (newDefaultSet [3, 1, 2] RoundRobin) \<noteq> []"
    by (simp add: vs)
  have h3: "(9 :: address) \<noteq> 0"
    by simp
  have h4: "9 \<notin> set (AddressList (newDefaultSet [3, 1, 2] RoundRobin))"
    by (simp add: AddressList_newDefaultSet)
  have h5: "unat (4 :: uint64) + 1 < 2 ^ 64"
    by simp
  have h6: "Address (validators (newDefaultSet [3, 1, 2] RoundRobin) ! 0) \<noteq> 0"
    by (simp add: vs)
  note c10 = C10_unknown_proposer [OF h1 h2 h3 h4, where rnd = 4]
  from c10 h5
  have "roundRobinSelector (newDefaultSet [3, 1, 2] RoundRobin) 9 4 =
          Some (validators (newDefaultSet [3, 1, 2] RoundRobin) !
                  ((unat (4 :: uint64) + 1) mod length (validators (newDefaultSet [3, 1, 2] RoundRobin))))"
    by blast
  then have r1: "roundRobinSelector (newDefaultSet [3, 1, 2] RoundRobin) 9 4 = Some (New 3)"
    by (simp add: vs)
  from c10
  have "stickySelector (newDefaultSet [3, 1, 2] RoundRobin) 9 4 =
          Some (validators (newDefaultSet [3, 1, 2] RoundRobin) !
                  (unat (4 :: uint64) mod length (validators (newDefaultSet [3, 1, 2] RoundRobin))))"
    by blast
  then have r2: "stickySelector (newDefaultSet [3, 1, 2] RoundRobin) 9 4 = Some (New 2)"
    by (simp add: vs)
  from c10 h6
  have "roundRobinSelector (newDefaultSet [3, 1, 2] RoundRobin) 9 4 =
          roundRobinSelector (newDefaultSet [3, 1, 2] RoundRobin)
            (Address (validators (newDefaultSet [3, 1, 2] RoundRobin) ! 0)) 4"
    by blast
  with r1 have r3: "roundRobinSelector (newDefaultSet [3, 1, 2] RoundRobin)
            (Address (validators (newDefaultSet [3, 1, 2] RoundRobin) ! 0)) 4 = Some (New 3)"
    by (simp only:)
  from h1 h2 h3 h4 h5 h6 r1 r2 r3 show ?thesis by blast
qed

subsection \<open>Selection by index, the empty set, and the proposer test\<close>

lemma unat_pred: "1 < (index :: uint64) \<Longrightarrow> unat (index - 1) = unat index - 1"
  by (simp add: unat_sub word_le_nat_alt word_less_nat_alt)

lemma index_validators_Inr:
  "unat i < length (validators s) \<Longrightarrow> index_validators s i = Inr (validators s ! unat i)"
  by (simp add: index_validators_def)

lemma CalcProposerByIndex_nonempty:
  assumes "len_fits s" and "validators s \<noteq> []"
  shows "CalcProposerByIndex s index =
         Inr (s\<lparr>proposer := Some (validators s !
                  (if 1 < index then (unat index - 1) mod length (validators s) else 0))\<rparr>)"
proof -
  let ?n = "uint64_of_int (int (length (validators s)))"
  from assms have n: "unat ?n = length (validators s)"
    using len_fits_unat [of s] by (simp add: Size_def)
  with assms(2) have n0: "?n \<noteq> 0"
    by (metis length_0_conv unat_0)
  show ?thesis
  proof (cases "1 < index")
    case True
    have "unat ((index - 1) mod ?n) = (unat index - 1) mod length (validators s)"
      by (simp add: unat_mod n unat_pred [OF True])
    moreover from assms(2) have "(unat index - 1) mod length (validators s) < length (validators s)"
      by simp
    ultimately have "index_validators s ((index - 1) mod ?n) =
        Inr (validators s ! ((unat index - 1) mod length (validators s)))"
      by (simp add: index_validators_def)
    with True n0 show ?thesis
      by (simp add: CalcProposerByIndex_def Let_def)
  next
    case False
    from assms(2) have "index_validators s 0 = Inr (validators s ! 0)"
      by (simp add: index_validators_def)
    with False show ?thesis
      by (simp add: CalcProposerByIndex_def Let_def)
  qed
qed

lemma CalcProposerByIndex_empty:
  assumes "validators s = []"
  shows "CalcProposerByIndex s index = Inl (if 1 < index then DivideByZero else IndexOutOfRange)"
  using assms
  by (simp add: CalcProposerByIndex_def Let_def uint64_of_int_def index_validators_def)

lemma run_selector_empty:
  "validators s = [] \<Longrightarrow> run_selector sel s p r = None"
  by (cases sel)
     (simp_all add: roundRobinSelector_def stickySelector_def vrfSelector_def Size_def)

text \<open>
  On the empty set no proposer is stored: the read of element 0 is out of range.
\<close>

theorem C5_CalcProposerByIndex_counterexample:
  "CalcProposerByIndex (newDefaultSet [] RoundRobin) 0 = Inl IndexOutOfRange"
  by code_simp

text \<open>
  Claim C5, as the code has it. For every non-empty validator set and every index
  value, \<^verbatim>\<open>CalcProposerByIndex\<close> stores as current proposer the member at the effective
  index \<open>(index - 1) mod Size\<close> when the index is above 1, and the member at index 0
  when the index is 0 or 1; nothing else of the set changes.
\<close>

theorem C5_CalcProposerByIndex:
  assumes "len_fits valSet" and "validators valSet \<noteq> []"
  shows "CalcProposerByIndex valSet index =
         Inr (valSet\<lparr>proposer := Some (validators valSet !
                (if 1 < index then (unat index - 1) mod length (validators valSet) else 0))\<rparr>)"
  using assms by (rule CalcProposerByIndex_nonempty)

text \<open>The set built from \<open>[3, 1, 2]\<close> with the indices 5, 1 and 0.\<close>

theorem C5_CalcProposerByIndex_witness:
  "len_fits (newDefaultSet [3, 1, 2] RoundRobin) \<and>
   validators (newDefaultSet [3, 1, 2] RoundRobin) \<noteq> [] \<and>
   CalcProposerByIndex (newDefaultSet [3, 1, 2] RoundRobin) 5 =
     Inr ((newDefaultSet [3, 1, 2] RoundRobin)\<lparr>proposer := Some (New 2)\<rparr>) \<and>
   CalcProposerByIndex (newDefaultSet [3, 1, 2] RoundRobin) 1 =
     Inr ((newDefaultSet [3, 1, 2] RoundRobin)\<lparr>proposer := Some (New 1)\<rparr>) \<and>
   CalcProposerByIndex (newDefaultSet [3, 1, 2] RoundRobin) 0 =
     Inr ((newDefaultSet [3, 1, 2] RoundRobin)\<lparr>proposer := Some (New 1)\<rparr>)"
proof -
  have vs: "validators (newDefaultSet [3, 1, 2] RoundRobin) = [New 1, New 2, New 3]"
    by code_simp
  have h1: "len_fits (newDefaultSet [3, 1, 2] RoundRobin)"
    by (simp add: len_fits_def vs)
  have h2: "validators (newDefaultSet [3, 1, 2] RoundRobin) \<noteq> []"
    by (simp add: vs)
  have a: "CalcProposerByIndex (newDefaultSet [3, 1, 2] RoundRobin) 5 =
     Inr ((newDefaultSet [3, 1, 2] RoundRobin)\<lparr>proposer := Some (New 2)\<rparr>)"
    using C5_CalcProposerByIndex [OF h1 h2, of 5] by (simp add: vs)
  have b: "CalcProposerByIndex (newDefaultSet [3, 1, 2] RoundRobin) 1 =
     Inr ((newDefaultSet [3, 1, 2] RoundRobin)\<lparr>proposer := Some (New 1)\<rparr>)"
    using C5_CalcProposerByIndex [OF h1 h2, of 1] by (simp add: vs)
  have c: "CalcProposerByIndex (newDefaultSet [3, 1, 2] RoundRobin) 0 =
     Inr ((newDefaultSet [3, 1, 2] RoundRobin)\<lparr>proposer := Some (New 1)\<rparr>)"
    using C5_CalcProposerByIndex [OF h1 h2, of 0] by (simp add: vs)
  from h1 h2 a b c show ?thesis by blast
qed

text \<open>
  Claim C9. \<^verbatim>\<open>CalcProposerByIndex\<close> needs a non-empty set: on an empty validator set
  it panics for every index, reading element 0 of an empty slice when the index is 0
  or 1 and taking a modulus by zero when the index is above 1. \<^verbatim>\<open>CalcProposer\<close>, which
  goes through the selector, stores no validator on an empty set, whatever the
  selector, the last proposer and the round.
\<close>

theorem C9_empty_set:
  assumes "validators valSet = []"
  shows "CalcProposerByIndex valSet index =
           Inl (if 1 < index then DivideByZero else IndexOutOfRange) \<and>
         CalcProposer valSet lastProposer rnd = valSet\<lparr>proposer := None\<rparr> \<and>
         GetProposer (CalcProposer valSet lastProposer rnd) = None"
  using assms
  by (simp add: CalcProposerByIndex_empty CalcProposer_def run_selector_empty GetProposer_def)

text \<open>The set built from the empty list, with the indices 0, 1 and 7.\<close>

theorem C9_empty_set_witness:
  "validators (newDefaultSet [] Sticky) = [] \<and>
   CalcProposerByIndex (newDefaultSet [] Sticky) 0 = Inl IndexOutOfRange \<and>
   CalcProposerByIndex (newDefaultSet [] Sticky) 1 = Inl IndexOutOfRange \<and>
   CalcProposerByIndex (newDefaultSet [] Sticky) 7 = Inl DivideByZero \<and>
   GetProposer (CalcProposer (newDefaultSet [] Sticky) 3 2) = None"
proof -
  have h: "validators (newDefaultSet [] Sticky) = []"
    by code_simp
  from C9_empty_set [OF h, of 0 3 2] C9_empty_set [OF h, of 1 3 2] C9_empty_set [OF h, of 7 3 2] h
  show ?thesis by simp
qed

lemma IsProposer_iff:
  "IsProposer s a \<longleftrightarrow>
     proposer s = (case first_index (validators s) a of
                     None \<Rightarrow> None | Some i \<Rightarrow> Some (validators s ! i))"
  by (simp add: IsProposer_def DeepEqual_def GetProposer_def GetByAddress_def List_def
      split: option.split)

lemma IsProposer_member:
  assumes "proposer s = Some p" and "p \<in> set (validators s)"
  shows "IsProposer s a \<longleftrightarrow> a = Address p"
proof (cases "first_index (validators s) a")
  case None
  with assms(1) have "\<not> IsProposer s a"
    by (simp add: IsProposer_iff)
  moreover from None have "a \<notin> Address ` set (validators s)"
    by (simp add: first_index_None_iff)
  with assms(2) have "a \<noteq> Address p"
    by blast
  ultimately show ?thesis by simp
next
  case (Some i)
  then have "Address (validators s ! i) = a"
    by (rule first_index_Some_nth)
  then have "validators s ! i = p \<longleftrightarrow> a = Address p"
    by (auto simp: Address_eq_iff)
  with Some assms(1) show ?thesis
    by (auto simp: IsProposer_iff)
qed

text \<open>
  Claim C6 at the empty set. The set built from the empty list has no proposer, and
  \<^verbatim>\<open>IsProposer\<close> answers true for the address 5: the lookup of the address finds no
  validator, and the comparison of the two \<^verbatim>\<open>nil\<close> values succeeds. The claim asks
  for false, as 5 is not the identity of a current proposer.
\<close>

theorem C6_IsProposer_empty_set:
  "GetProposer (newDefaultSet [] RoundRobin) = None \<and>
   IsProposer (newDefaultSet [] RoundRobin) 5 = True"
  by code_simp

subsection \<open>Comparison of two sets\<close>

lemma set_AddressList: "set (AddressList s) = Address ` set (validators s)"
  by (simp add: AddressList_def List_def)

lemma length_AddressList: "int (length (AddressList s)) = Size s"
  by (simp add: AddressList_def List_def Size_def)

lemma GetByAddress_neg: "fst (GetByAddress s a) < 0 \<longleftrightarrow> a \<notin> set (AddressList s)"
  by (cases "first_index (validators s) a")
     (simp_all add: GetByAddress_def List_def set_AddressList first_index_None_iff [symmetric])

lemma ParticipantsNumber_loop_eq:
  "ParticipantsNumber_loop s list n =
     n + int (length (filter (\<lambda>a. a \<in> set (AddressList s)) list))"
  by (induction list arbitrary: n) (simp_all add: GetByAddress_neg)

lemma ParticipantsNumber_eq:
  "ParticipantsNumber s list = int (length (filter (\<lambda>a. a \<in> set (AddressList s)) list))"
  by (cases list) (simp_all add: ParticipantsNumber_def ParticipantsNumber_loop_eq)

lemma length_filter_eq_iff: "length (filter P xs) = length xs \<longleftrightarrow> (\<forall>x\<in>set xs. P x)"
proof -
  have "length (filter P xs) + length (filter (\<lambda>x. \<not> P x) xs) = length xs"
    by (rule sum_length_filter_compl)
  then have "length (filter P xs) = length xs \<longleftrightarrow> filter (\<lambda>x. \<not> P x) xs = []"
    by auto
  then show ?thesis
    by (simp add: filter_empty_conv)
qed

lemma Cmp_iff_subset:
  "Cmp A B \<longleftrightarrow> set (AddressList B) \<subseteq> set (AddressList A) \<and> Size A = Size B"
proof -
  let ?k = "length (filter (\<lambda>a. a \<in> set (AddressList A)) (AddressList B))"
  have "Cmp A B \<longleftrightarrow> ?k = length (AddressList A) \<and> ?k = length (AddressList B)"
    by (auto simp: Cmp_def ParticipantsNumber_eq Let_def length_AddressList [symmetric])
  also have "\<dots> \<longleftrightarrow> ?k = length (AddressList B) \<and> length (AddressList A) = length (AddressList B)"
    by auto
  also have "\<dots> \<longleftrightarrow> set (AddressList B) \<subseteq> set (AddressList A) \<and> Size A = Size B"
    by (auto simp: length_filter_eq_iff length_AddressList [symmetric])
  finally show ?thesis .
qed

lemma Cmp_distinct:
  assumes "distinct (AddressList A)" and "distinct (AddressList B)"
  shows "Cmp A B \<longleftrightarrow> set (AddressList A) = set (AddressList B)"
proof
  assume "Cmp A B"
  then have sub: "set (AddressList B) \<subseteq> set (AddressList A)"
    and len: "length (AddressList A) = length (AddressList B)"
    by (simp_all add: Cmp_iff_subset length_AddressList [symmetric])
  from assms len have "card (set (AddressList A)) = card (set (AddressList B))"
    by (simp add: distinct_card)
  with sub have "set (AddressList B) = set (AddressList A)"
    by (intro card_subset_eq) simp_all
  then show "set (AddressList A) = set (AddressList B)"
    by simp
next
  assume eq: "set (AddressList A) = set (AddressList B)"
  with assms have "length (AddressList A) = length (AddressList B)"
    by (metis distinct_card)
  with eq show "Cmp A B"
    by (simp add: Cmp_iff_subset length_AddressList [symmetric])
qed

lemma Cmp_same_list:
  assumes "mset addrs1 = mset addrs2"
  shows "Cmp (newDefaultSet addrs1 pol1) (newDefaultSet addrs2 pol2)"
proof -
  from assms have "set addrs1 = set addrs2" and "length addrs1 = length addrs2"
    by (auto dest: mset_eq_setD mset_eq_length)
  then show ?thesis
    by (simp add: Cmp_iff_subset AddressList_newDefaultSet Size_newDefaultSet)
qed

lemma Cmp_missing_address:
  "\<not> set (AddressList B) \<subseteq> set (AddressList A) \<Longrightarrow> \<not> Cmp A B"
  by (simp add: Cmp_iff_subset)

text \<open>
  Claim C8 at a set that lists an address twice. The constructor keeps the repeated
  address of the list \<open>[2, 2]\<close>. The set built from \<open>[1, 2]\<close> then compares equal to the
  set built from \<open>[2, 2]\<close>: both addresses of the second are members of the first and
  the sizes are equal, though the first contains the address 1, which the second
  lacks. The claim asks for false.
\<close>

theorem C8_Cmp_duplicate_member:
  "AddressList (newDefaultSet [2, 2] RoundRobin) = [2, 2] \<and>
   Cmp (newDefaultSet [1, 2] RoundRobin) (newDefaultSet [2, 2] RoundRobin) \<and>
   1 \<in> set (AddressList (newDefaultSet [1, 2] RoundRobin)) \<and>
   1 \<notin> set (AddressList (newDefaultSet [2, 2] RoundRobin))"
  by (simp add: Cmp_iff_subset AddressList_newDefaultSet Size_newDefaultSet)

text \<open>
  The comparison of the two sets runs through the branch of \<^verbatim>\<open>Cmp\<close> that returns
  true: the number of participants, 2, is the size of both.
\<close>

theorem C8_Cmp_duplicate_member_witness:
  "ParticipantsNumber (newDefaultSet [1, 2] RoundRobin)
     (AddressList (newDefaultSet [2, 2] RoundRobin)) = 2 \<and>
   Size (newDefaultSet [1, 2] RoundRobin) = 2 \<and>
   Size (newDefaultSet [2, 2] RoundRobin) = 2 \<and>
   Cmp (newDefaultSet [1, 2] RoundRobin) (newDefaultSet [2, 2] RoundRobin) = True"
proof -
  have "ParticipantsNumber (newDefaultSet [1, 2] RoundRobin)
     (AddressList (newDefaultSet [2, 2] RoundRobin)) = 2"
    by code_simp
  moreover have "Size (newDefaultSet [1, 2] RoundRobin) = 2"
    and "Size (newDefaultSet [2, 2] RoundRobin) = 2"
    by (simp_all add: Size_newDefaultSet)
  ultimately show ?thesis
    using C8_Cmp_duplicate_member by simp
qed

subsection \<open>The quorum check\<close>

lemma AddressList_Copy: "AddressList (Copy s) = sort (AddressList s)"
  by (simp add: Copy_def NewSet_def AddressList_newDefaultSet)
     (simp add: AddressList_def List_def)

lemma Size_Copy: "Size (Copy s) = Size s"
  by (simp add: Copy_def NewSet_def Size_newDefaultSet) (simp add: Size_def)

lemma mset_AddressList_Copy: "mset (AddressList (Copy s)) = mset (AddressList s)"
  by (simp add: AddressList_Copy)

lemma RemoveValidator_absent:
  "a \<notin> set (AddressList s) \<Longrightarrow> RemoveValidator s a = (False, s)"
  by (simp add: RemoveValidator_def first_index_absent)

lemma RemoveValidator_cases:
  "RemoveValidator s a = (a \<in> set (AddressList s), snd (RemoveValidator s a))"
  by (rule prod_eqI) (simp_all add: fst_RemoveValidator set_AddressList)

lemma CheckQuorum_loop_step:
  "CheckQuorum_loop s (a # cs) n =
     CheckQuorum_loop (snd (RemoveValidator s a)) cs (if a \<in> set (AddressList s) then n + 1 else n)"
proof -
  obtain b s' where eq: "RemoveValidator s a = (b, s')"
    by (cases "RemoveValidator s a")
  with fst_RemoveValidator [of s a] have "b \<longleftrightarrow> a \<in> set (AddressList s)"
    by (simp add: set_AddressList)
  with eq show ?thesis
    by (cases b) simp_all
qed

lemma CheckQuorum_loop_mset:
  "mset (AddressList (fst (CheckQuorum_loop s cs n))) = mset (AddressList s) - mset cs \<and>
   snd (CheckQuorum_loop s cs n) = n + int (size (mset (AddressList s) \<inter># mset cs))"
proof (induction cs arbitrary: s n)
  case Nil
  then show ?case by simp
next
  case (Cons a cs)
  let ?s' = "snd (RemoveValidator s a)"
  let ?M = "mset (AddressList s)"
  have M': "mset (AddressList ?s') = ?M - {#a#}"
    by (simp add: AddressList_RemoveValidator)
  show ?case
  proof (cases "a \<in> set (AddressList s)")
    case True
    then have "a \<in># ?M" by simp
    then have "?M \<inter># add_mset a (mset cs) = add_mset a ((?M - {#a#}) \<inter># mset cs)"
      by (simp add: inter_add_right2)
    with True Cons.IH [of ?s' "n + 1"] M' show ?thesis
      by (simp add: CheckQuorum_loop_step del: CheckQuorum_loop.simps(2))
  next
    case False
    then have "a \<notin># ?M" by simp
    then have "?M \<inter># add_mset a (mset cs) = ?M \<inter># mset cs" and "?M - {#a#} = ?M"
      by (simp_all add: inter_add_right1)
    with False Cons.IH [of ?s' n] M' show ?thesis
      by (simp add: CheckQuorum_loop_step del: CheckQuorum_loop.simps(2))
  qed
qed

lemma CheckQuorum_loop_Size:
  "Size (fst (CheckQuorum_loop s cs n)) = Size s - (snd (CheckQuorum_loop s cs n) - n)"
proof (induction cs arbitrary: s n)
  case Nil
  then show ?case by simp
next
  case (Cons a cs)
  let ?s' = "snd (RemoveValidator s a)"
  have len: "length (AddressList ?s') =
       (if a \<in> set (AddressList s) then length (AddressList s) - 1 else length (AddressList s))"
    by (simp add: AddressList_RemoveValidator length_remove1)
  show ?case
  proof (cases "a \<in> set (AddressList s)")
    case True
    then obtain k where k: "length (AddressList s) = Suc k"
      by (cases "AddressList s") auto
    with True len have "int (length (AddressList ?s')) = int (length (AddressList s)) - 1"
      by simp
    then have "Size ?s' = Size s - 1"
      by (simp only: length_AddressList)
    with True Cons.IH [of ?s' "n + 1"] show ?thesis
      by (simp add: CheckQuorum_loop_step del: CheckQuorum_loop.simps(2))
  next
    case False
    with len have "Size ?s' = Size s"
      by (simp add: length_AddressList [symmetric])
    with False Cons.IH [of ?s' n] show ?thesis
      by (simp add: CheckQuorum_loop_step del: CheckQuorum_loop.simps(2))
  qed
qed

lemma CheckQuorum_loop_distinct:
  assumes "distinct (AddressList s)"
  shows "set (AddressList (fst (CheckQuorum_loop s cs n))) = set (AddressList s) - set cs \<and>
         snd (CheckQuorum_loop s cs n) = n + int (card (set cs \<inter> set (AddressList s)))"
  using assms
proof (induction cs arbitrary: s n)
  case Nil
  then show ?case by simp
next
  case (Cons a cs)
  let ?s' = "snd (RemoveValidator s a)"
  from Cons.prems have d': "distinct (AddressList ?s')"
    by (simp add: AddressList_RemoveValidator)
  from Cons.prems have set': "set (AddressList ?s') = set (AddressList s) - {a}"
    by (simp add: AddressList_RemoveValidator)
  note IH = Cons.IH [OF d']
  show ?case
  proof (cases "a \<in> set (AddressList s)")
    case True
    have "set (a # cs) \<inter> set (AddressList s) =
          insert a (set cs \<inter> (set (AddressList s) - {a}))"
      using True by auto
    moreover have "a \<notin> set cs \<inter> (set (AddressList s) - {a})"
      by simp
    ultimately have "card (set (a # cs) \<inter> set (AddressList s)) =
          Suc (card (set cs \<inter> (set (AddressList s) - {a})))"
      by (simp only: card_insert_disjoint [OF _ \<open>a \<notin> _\<close>] finite_Int finite_set)
         (simp add: card_insert_disjoint)
    with True IH [of "n + 1"] set' show ?thesis
      by (auto simp: CheckQuorum_loop_step simp del: CheckQuorum_loop.simps(2))
  next
    case False
    then have "set (a # cs) \<inter> set (AddressList s) = set cs \<inter> (set (AddressList s) - {a})"
      by auto
    with False IH [of n] set' show ?thesis
      by (auto simp: CheckQuorum_loop_step simp del: CheckQuorum_loop.simps(2))
  qed
qed

lemma Q_Size: "Q s = Size s - ((Size s + 2) div 3 - 1)"
  by (simp add: Q_def F_div)

lemma CheckQuorum_unfold:
  "CheckQuorum s cs =
     (if snd (CheckQuorum_loop (Copy s) cs 0) \<le> Q (fst (CheckQuorum_loop (Copy s) cs 0))
      then Some ErrInvalidParticipant else None)"
  by (simp add: CheckQuorum_def split: prod.split)

lemma validSeal_Copy:
  "snd (CheckQuorum_loop (Copy s) cs 0) = int (size (mset (AddressList s) \<inter># mset cs))"
  using CheckQuorum_loop_mset [of "Copy s" cs 0] by (simp add: mset_AddressList_Copy)

lemma remaining_Copy:
  "mset (AddressList (fst (CheckQuorum_loop (Copy s) cs 0))) = mset (AddressList s) - mset cs"
  using CheckQuorum_loop_mset [of "Copy s" cs 0] by (simp add: mset_AddressList_Copy)

lemma Size_remaining_Copy:
  "Size (fst (CheckQuorum_loop (Copy s) cs 0)) = Size s - snd (CheckQuorum_loop (Copy s) cs 0)"
  using CheckQuorum_loop_Size [of "Copy s" cs 0] by (simp add: Size_Copy)

lemma distinct_Copy:
  assumes "distinct (AddressList s)"
  shows "snd (CheckQuorum_loop (Copy s) cs 0) = int (card (set cs \<inter> set (AddressList s)))"
    and "set (AddressList (fst (CheckQuorum_loop (Copy s) cs 0))) = set (AddressList s) - set cs"
proof -
  from assms have "distinct (AddressList (Copy s))"
    by (simp add: AddressList_Copy)
  from CheckQuorum_loop_distinct [OF this, of cs 0]
  show "snd (CheckQuorum_loop (Copy s) cs 0) = int (card (set cs \<inter> set (AddressList s)))"
    and "set (AddressList (fst (CheckQuorum_loop (Copy s) cs 0))) = set (AddressList s) - set cs"
    by (simp_all add: AddressList_Copy)
qed

lemma CheckQuorum_closed:
  "CheckQuorum s cs =
     (let k = snd (CheckQuorum_loop (Copy s) cs 0)
      in if k \<le> (Size s - k) - ((Size s - k + 2) div 3 - 1)
         then Some ErrInvalidParticipant else None)"
  by (simp add: CheckQuorum_unfold Q_Size Size_remaining_Copy Let_def)

lemma CheckQuorum_remdups:
  assumes "distinct (AddressList s)"
  shows "CheckQuorum s (remdups cs) = CheckQuorum s cs"
  by (simp add: CheckQuorum_closed distinct_Copy(1) [OF assms])

lemma CheckQuorum_nonmember:
  assumes "a \<notin> set (AddressList s)"
  shows "CheckQuorum s (a # cs) = CheckQuorum s cs"
proof -
  from assms have "a \<notin> set (AddressList (Copy s))"
    by (simp add: AddressList_Copy)
  then have "CheckQuorum_loop (Copy s) (a # cs) 0 = CheckQuorum_loop (Copy s) cs 0"
    by (simp add: RemoveValidator_absent)
  then show ?thesis
    by (simp only: CheckQuorum_def)
qed

lemma CheckQuorum_characterised:
  "CheckQuorum valSet committers =
     (if snd (CheckQuorum_loop (Copy valSet) committers 0)
          \<le> Q (fst (CheckQuorum_loop (Copy valSet) committers 0))
      then Some ErrInvalidParticipant else None) \<and>
   snd (CheckQuorum_loop (Copy valSet) committers 0) =
     int (size (mset (AddressList valSet) \<inter># mset committers)) \<and>
   mset (AddressList (fst (CheckQuorum_loop (Copy valSet) committers 0))) =
     mset (AddressList valSet) - mset committers \<and>
   Size (fst (CheckQuorum_loop (Copy valSet) committers 0)) =
     Size valSet - snd (CheckQuorum_loop (Copy valSet) committers 0)"
  by (simp only: CheckQuorum_unfold validSeal_Copy remaining_Copy Size_remaining_Copy simp_thms)


subsection \<open>Copies\<close>

lemma policy_Copy: "policy (Copy s) = policy s"
  by (simp add: Copy_def NewSet_def policy_newDefaultSet)

lemma Copy_proposer_update: "Copy (s\<lparr>proposer := p\<rparr>) = Copy s"
  by (simp add: Copy_def)

lemma sort_validators_Nil_iff [simp]: "sort_validators vs = [] \<longleftrightarrow> vs = []"
  using length_sort_validators [of vs] by (simp only: length_0_conv [symmetric])

lemma GetByIndex_validators:
  "validators s = validators s' \<Longrightarrow> GetByIndex s i = GetByIndex s' i"
  by (simp add: GetByIndex_def Size_def)

lemma proposer_newDefaultSet:
  "proposer (newDefaultSet addrs pol) =
     (if addrs = [] then None else GetByIndex (newDefaultSet addrs pol) 0)"
proof (cases "addrs = []")
  case True
  then show ?thesis
    by (simp add: newDefaultSet_def Let_def Size_def)
next
  case False
  let ?s0 = "\<lparr>validators = sort_validators (map New addrs), policy = pol, proposer = None,
               selector = roundRobinSelector_fn\<rparr>"
  have "validators ?s0 = validators (newDefaultSet addrs pol)"
    by (simp add: validators_newDefaultSet)
  then have "GetByIndex ?s0 0 = GetByIndex (newDefaultSet addrs pol) 0"
    by (rule GetByIndex_validators)
  moreover from False have "proposer (newDefaultSet addrs pol) = GetByIndex ?s0 0"
    by (simp add: newDefaultSet_def Let_def Size_def)
  ultimately show ?thesis
    using False by simp
qed

lemma proposer_Copy:
  "proposer (Copy s) = (if validators s = [] then None else GetByIndex (Copy s) 0)"
  by (simp add: Copy_def NewSet_def proposer_newDefaultSet)

lemma len_fits_Copy: "len_fits (Copy s) = len_fits s"
  using Size_Copy [of s] by (simp add: len_fits_def Size_def)

lemma proposer_Copy_first:
  assumes "len_fits s" and "validators s \<noteq> []"
  shows "proposer (Copy s) = Some (validators (Copy s) ! 0)"
proof -
  from assms(1) have lf: "len_fits (Copy s)"
    by (simp add: len_fits_Copy)
  from assms(2) Size_Copy [of s] have ne: "validators (Copy s) \<noteq> []"
    by (auto simp: Size_def)
  then have "unat (0 :: uint64) < length (validators (Copy s))"
    by simp
  from GetByIndex_Some [OF lf this] assms(2) show ?thesis
    by (simp add: proposer_Copy)
qed

lemma AddressList_Copy_sorted:
  "sorted (AddressList s) \<Longrightarrow> AddressList (Copy s) = AddressList s"
  by (simp add: AddressList_Copy sorted_sort_id)

lemma set_AddressList_Copy: "set (AddressList (Copy s)) = set (AddressList s)"
  by (simp add: AddressList_Copy)

subsection \<open>Operations on the store\<close>

lemma deref_fields:
  "validators (deref st p) = slice_list st (List_st st p)"
  "policy (deref st p) = policy_of (objects st ! p)"
  "proposer (deref st p) = proposer_of (objects st ! p)"
  "selector (deref st p) = selector_of (objects st ! p)"
  by (simp_all add: deref_def List_st_def Let_def)

lemma deref_cong:
  assumes "objects st' ! q = objects st ! q"
    and "arrays st' ! arr (validators_of (objects st ! q)) =
         arrays st ! arr (validators_of (objects st ! q))"
  shows "deref st' q = deref st q"
  using assms by (simp add: deref_def slice_list_def Let_def)

lemma valid_ref_cong:
  assumes "valid_ref st q"
    and "objects st' ! q = objects st ! q"
    and "length (objects st) \<le> length (objects st')"
    and "length (arrays st) \<le> length (arrays st')"
    and "arrays st' ! arr (validators_of (objects st ! q)) =
         arrays st ! arr (validators_of (objects st ! q))"
  shows "valid_ref st' q"
  using assms by (simp add: valid_ref_def)

lemma sorted_prefix:
  "n \<le> length cs \<Longrightarrow> take n (sort_validators (take n cs) @ drop n cs) = sort_validators (take n cs)"
  by simp

lemma take_length_append: "length xs = n \<Longrightarrow> take n (xs @ ys) = xs"
  by simp

lemma shift_down_prefix:
  assumes "i < n" and "n \<le> length cs"
  shows "take (n - 1) (take i cs @ drop (i + 1) (take n cs) @ drop (n - 1) cs) =
         take i (take n cs) @ drop (i + 1) (take n cs)"
proof -
  from assms have "length (take i cs @ drop (i + 1) (take n cs)) = n - 1"
    by (simp add: min_def)
  then have "take (n - 1) ((take i cs @ drop (i + 1) (take n cs)) @ drop (n - 1) cs) =
             take i cs @ drop (i + 1) (take n cs)"
    by (rule take_length_append)
  moreover from assms have "take i (take n cs) = take i cs"
    by (simp add: min_def)
  ultimately show ?thesis
    by (simp only: append_assoc)
qed

lemma RemoveValidator_st_effect:
  assumes "valid_ref st p"
  shows "valid_ref (snd (RemoveValidator_st st p a)) p \<and>
         deref (snd (RemoveValidator_st st p a)) p = snd (RemoveValidator (deref st p) a) \<and>
         fst (RemoveValidator_st st p a) = fst (RemoveValidator (deref st p) a) \<and>
         arr (List_st (snd (RemoveValidator_st st p a)) p) = arr (List_st st p) \<and>
         length (objects (snd (RemoveValidator_st st p a))) = length (objects st) \<and>
         length (arrays (snd (RemoveValidator_st st p a))) = length (arrays st)"
proof -
  let ?o = "objects st ! p"
  let ?sl = "validators_of ?o"
  let ?cs = "cells (arrays st ! arr ?sl)"
  from assms have p: "p < length (objects st)" and a: "arr ?sl < length (arrays st)"
    and l: "len ?sl \<le> length ?cs"
    by (simp_all add: valid_ref_def)
  have vs: "validators (deref st p) = take (len ?sl) ?cs"
    by (simp add: deref_fields List_st_def slice_list_def)
  show ?thesis
  proof (cases "first_index (take (len ?sl) ?cs) a")
    case None
    with assms show ?thesis
      by (simp add: RemoveValidator_st_def RemoveValidator_def Let_def slice_list_def vs)
  next
    case (Some i)
    then have i: "i < len ?sl"
      using first_index_Some_less [OF Some] l by simp
    have tk: "take (len ?sl - Suc 0)
                (take i ?cs @ drop (Suc i) (take (len ?sl) ?cs) @ drop (len ?sl - Suc 0) ?cs) =
              take i (take (len ?sl) ?cs) @ drop (Suc i) (take (len ?sl) ?cs)"
      using shift_down_prefix [OF i l] by simp
    have le: "len ?sl - Suc 0 \<le> length (take i ?cs @ drop (Suc i) (take (len ?sl) ?cs) @
                 drop (len ?sl - Suc 0) ?cs)"
      using i l by (auto simp: min_def)
    from Some p a le show ?thesis
      by (simp add: RemoveValidator_st_def RemoveValidator_def Let_def slice_list_def vs
          valid_ref_def List_st_def deref_def tk del: length_append length_take length_drop
          take_append take_take)
  qed
qed

lemma RemoveValidator_st_frame:
  assumes "valid_ref st q" and "q \<noteq> p"
    and "arr (List_st st q) \<noteq> arr (List_st st p)"
  shows "deref (snd (RemoveValidator_st st p a)) q = deref st q \<and>
         valid_ref (snd (RemoveValidator_st st p a)) q \<and>
         List_st (snd (RemoveValidator_st st p a)) q = List_st st q"
proof (cases "first_index (slice_list st (validators_of (objects st ! p))) a")
  case None
  with assms show ?thesis
    by (simp add: RemoveValidator_st_def Let_def)
next
  case (Some i)
  with assms show ?thesis
    by (simp add: RemoveValidator_st_def Let_def deref_def slice_list_def valid_ref_def List_st_def)
qed

lemma written_cell:
  assumes "n \<le> length cs"
  shows "take (Suc n) (take n cs @ [v] @ drop (n + 1) cs) = take n cs @ [v]"
    and "Suc n \<le> length (take n cs @ [v] @ drop (n + 1) cs)"
  using assms by (auto simp: min_def)

lemma sorted_cells:
  assumes "m \<le> length cs"
  shows "take m (sort_validators (take m cs) @ drop m cs) = sort_validators (take m cs)"
    and "m \<le> length (sort_validators (take m cs) @ drop m cs)"
  using assms by (auto simp: min_def)

lemma AddValidator_st_effect:
  assumes "valid_ref st p"
  shows "valid_ref (snd (AddValidator_st g st p a)) p \<and>
         deref (snd (AddValidator_st g st p a)) p = snd (AddValidator (deref st p) a) \<and>
         fst (AddValidator_st g st p a) = fst (AddValidator (deref st p) a) \<and>
         (arr (List_st (snd (AddValidator_st g st p a)) p) = arr (List_st st p) \<or>
          arr (List_st (snd (AddValidator_st g st p a)) p) = length (arrays st)) \<and>
         length (objects (snd (AddValidator_st g st p a))) = length (objects st) \<and>
         length (arrays st) \<le> length (arrays (snd (AddValidator_st g st p a)))"
proof -
  let ?o = "objects st ! p"
  let ?sl = "validators_of ?o"
  let ?a = "arrays st ! arr ?sl"
  let ?cs = "cells ?a"
  let ?n = "len ?sl"
  from assms have p: "p < length (objects st)" and a: "arr ?sl < length (arrays st)"
    and l: "?n \<le> length ?cs"
    by (simp_all add: valid_ref_def)
  have vs: "validators (deref st p) = take ?n ?cs"
    by (simp add: deref_fields List_st_def slice_list_def)
  show ?thesis
  proof (cases "list_ex (\<lambda>v. Address v = a) (take ?n ?cs)")
    case True
    with assms show ?thesis
      by (simp add: AddValidator_st_def AddValidator_def Let_def slice_list_def vs)
  next
    case False
    then have pure: "AddValidator (deref st p) a =
        (True, (deref st p)\<lparr>validators := sort_validators (take ?n ?cs @ [New a])\<rparr>)"
      by (simp add: AddValidator_def vs)
    show ?thesis
    proof (cases "?n < cap ?a")
      case True
      define cs1 where "cs1 = take ?n ?cs @ [New a] @ drop (?n + 1) ?cs"
      define cs2 where "cs2 = sort_validators (take (Suc ?n) cs1) @ drop (Suc ?n) cs1"
      from written_cell [OF l, of "New a"]
      have w1: "take (Suc ?n) cs1 = take ?n ?cs @ [New a]" and w2: "Suc ?n \<le> length cs1"
        by (simp_all only: cs1_def)
      from sorted_cells [OF w2]
      have s1: "take (Suc ?n) cs2 = sort_validators (take (Suc ?n) cs1)"
        and s2: "Suc ?n \<le> length cs2"
        by (simp_all only: cs2_def)
      define st' where "st' = st\<lparr>arrays := (arrays st)[arr ?sl := ?a\<lparr>cells := cs2\<rparr>],
                     objects := (objects st)[p := ?o\<lparr>validators_of := ?sl\<lparr>len := Suc ?n\<rparr>\<rparr>]\<rparr>"
      have res: "AddValidator_st g st p a = (True, st')"
        using False True p a
        by (simp add: AddValidator_st_def Let_def append_slice_def sort_slice_def slice_list_def
            cs2_def cs1_def st'_def)
      from p a s2 have "valid_ref st' p"
        and "deref st' p = (deref st p)\<lparr>validators := sort_validators (take ?n ?cs @ [New a])\<rparr>"
        and "arr (List_st st' p) = arr (List_st st p)"
        and "length (objects st') = length (objects st)"
        and "length (arrays st) \<le> length (arrays st')"
        by (simp_all add: st'_def valid_ref_def deref_def List_st_def slice_list_def Let_def s1 w1)
      then show ?thesis
        by (simp only: res pure snd_conv fst_conv simp_thms)
    next
      case nocap: False
      define cs2 where "cs2 = sort_validators (take (Suc ?n) (take ?n ?cs @ [New a])) @
                               drop (Suc ?n) (take ?n ?cs @ [New a])"
      from l have s1: "take (Suc ?n) cs2 = sort_validators (take ?n ?cs @ [New a])"
        and s2: "Suc ?n \<le> length cs2"
        by (simp_all add: cs2_def min_def)
      define st' where "st' =
          st\<lparr>arrays := arrays st @ [\<lparr>cells = cs2, cap = max (?n + 1) (g (cap ?a))\<rparr>],
             objects := (objects st)[p := ?o\<lparr>validators_of :=
                           \<lparr>arr = length (arrays st), len = Suc ?n\<rparr>\<rparr>]\<rparr>"
      have res: "AddValidator_st g st p a = (True, st')"
        using False nocap p a
        by (simp add: AddValidator_st_def Let_def append_slice_def sort_slice_def slice_list_def
            cs2_def st'_def)
      from p a s2 have "valid_ref st' p"
        and "deref st' p = (deref st p)\<lparr>validators := sort_validators (take ?n ?cs @ [New a])\<rparr>"
        and "arr (List_st st' p) = length (arrays st)"
        and "length (objects st') = length (objects st)"
        and "length (arrays st) \<le> length (arrays st')"
        by (simp_all add: st'_def valid_ref_def deref_def List_st_def slice_list_def Let_def s1)
      then show ?thesis
        by (simp only: res pure snd_conv fst_conv simp_thms)
    qed
  qed
qed

lemma AddValidator_st_frame:
  assumes "valid_ref st p" and "valid_ref st q" and "q \<noteq> p"
    and "arr (List_st st q) \<noteq> arr (List_st st p)"
  shows "deref (snd (AddValidator_st g st p a)) q = deref st q \<and>
         valid_ref (snd (AddValidator_st g st p a)) q \<and>
         List_st (snd (AddValidator_st g st p a)) q = List_st st q"
proof -
  let ?sl = "validators_of (objects st ! p)"
  from assms have p: "p < length (objects st)" and a: "arr ?sl < length (arrays st)"
    and q: "q < length (objects st)"
    and aq: "arr (validators_of (objects st ! q)) < length (arrays st)"
    by (simp_all add: valid_ref_def)
  show ?thesis
  proof (cases "list_ex (\<lambda>v. Address v = a) (slice_list st ?sl)")
    case True
    with assms show ?thesis
      by (simp add: AddValidator_st_def Let_def)
  next
    case False
    with assms p a q aq show ?thesis
      by (cases "len ?sl < cap (arrays st ! arr ?sl)")
         (simp_all add: AddValidator_st_def Let_def append_slice_def sort_slice_def deref_def
            slice_list_def valid_ref_def List_st_def nth_append)
  qed
qed

lemma apply_mutation_st_effect:
  assumes "valid_ref st p"
  shows "valid_ref (apply_mutation_st g p st m) p \<and>
         deref (apply_mutation_st g p st m) p = apply_mutation (deref st p) m \<and>
         (arr (List_st (apply_mutation_st g p st m) p) = arr (List_st st p) \<or>
          arr (List_st (apply_mutation_st g p st m) p) = length (arrays st))"
proof (cases m)
  case (Add a)
  with AddValidator_st_effect [OF assms, of g a] show ?thesis by simp
next
  case (Remove a)
  with RemoveValidator_st_effect [OF assms, of a] show ?thesis by simp
qed

lemma apply_mutation_st_frame:
  assumes "valid_ref st p" and "valid_ref st q" and "q \<noteq> p"
    and "arr (List_st st q) \<noteq> arr (List_st st p)"
  shows "deref (apply_mutation_st g p st m) q = deref st q \<and>
         valid_ref (apply_mutation_st g p st m) q \<and>
         List_st (apply_mutation_st g p st m) q = List_st st q"
proof (cases m)
  case (Add a)
  with AddValidator_st_frame [OF assms, of g a] show ?thesis by simp
next
  case (Remove a)
  with RemoveValidator_st_frame [OF assms(2-4), of a] show ?thesis by simp
qed

lemma apply_mutations_st_separate:
  assumes "valid_ref st p" and "valid_ref st q" and "q \<noteq> p"
    and "arr (List_st st q) \<noteq> arr (List_st st p)"
  shows "deref (apply_mutations_st g p st ms) q = deref st q \<and>
         deref (apply_mutations_st g p st ms) p = apply_mutations (deref st p) ms"
  using assms
proof (induction ms arbitrary: st)
  case Nil
  then show ?case
    by (simp add: apply_mutations_st_def apply_mutations_def)
next
  case (Cons m ms)
  let ?st' = "apply_mutation_st g p st m"
  note eff = apply_mutation_st_effect [OF Cons.prems(1), of g m]
  note frm = apply_mutation_st_frame [OF Cons.prems, of g m]
  from Cons.prems(2) have "arr (List_st st q) < length (arrays st)"
    by (simp add: valid_ref_def List_st_def)
  with eff frm Cons.prems(4) have sep: "arr (List_st ?st' q) \<noteq> arr (List_st ?st' p)"
    by auto
  from eff frm have v: "valid_ref ?st' p" "valid_ref ?st' q"
    by simp_all
  from Cons.IH [OF v Cons.prems(3) sep] eff frm show ?case
    by (simp add: apply_mutations_st_def apply_mutations_def)
qed

lemma newDefaultSet_st_effect:
  "(case newDefaultSet_st st addrs pol of
      (st', c) \<Rightarrow>
        c = length (objects st) \<and>
        deref st' c = newDefaultSet addrs pol \<and>
        valid_ref st' c \<and>
        arr (List_st st' c) = length (arrays st) \<and>
        (valid_ref st q \<longrightarrow>
           deref st' q = deref st q \<and> valid_ref st' q \<and> List_st st' q = List_st st q))"
proof -
  define cs where "cs = sort_validators (take (length addrs) (map New addrs)) @
                        drop (length addrs) (map New addrs)"
  have cs: "cs = sort_validators (map New addrs)"
    by (simp add: cs_def)
  define obj where "obj = \<lparr>validators_of = \<lparr>arr = length (arrays st), len = length addrs\<rparr>,
      policy_of = policy (newDefaultSet addrs pol),
      proposer_of = proposer (newDefaultSet addrs pol),
      selector_of = selector (newDefaultSet addrs pol)\<rparr>"
  define st' where "st' = st\<lparr>arrays := arrays st @ [\<lparr>cells = cs, cap = length addrs\<rparr>],
                              objects := objects st @ [obj]\<rparr>"
  have res: "newDefaultSet_st st addrs pol = (st', length (objects st))"
    by (simp add: newDefaultSet_st_def make_slice_def sort_slice_def Let_def st'_def obj_def cs_def)
  have "deref st' (length (objects st)) = newDefaultSet addrs pol"
    by (rule defaultSet.equality)
       (simp_all add: deref_def slice_list_def Let_def st'_def obj_def cs validators_newDefaultSet)
  moreover have "valid_ref st' (length (objects st))"
    and "arr (List_st st' (length (objects st))) = length (arrays st)"
    by (simp_all add: valid_ref_def List_st_def st'_def obj_def cs)
  moreover have "deref st' q = deref st q \<and> valid_ref st' q \<and> List_st st' q = List_st st q"
    if "valid_ref st q"
    using that
    by (simp add: valid_ref_def deref_def slice_list_def List_st_def Let_def st'_def nth_append)
  ultimately show ?thesis
    unfolding res prod.case by blast
qed

lemma Copy_st_effect:
  "(case Copy_st st p of
      (st', c) \<Rightarrow>
        c = length (objects st) \<and>
        deref st' c = Copy (deref st p) \<and>
        valid_ref st' c \<and>
        arr (List_st st' c) = length (arrays st) \<and>
        (valid_ref st q \<longrightarrow>
           deref st' q = deref st q \<and> valid_ref st' q \<and> List_st st' q = List_st st q))"
proof -
  have "Copy (deref st p) =
        newDefaultSet (map Address (slice_list st (validators_of (objects st ! p))))
          (policy_of (objects st ! p))"
    by (simp add: Copy_def NewSet_def deref_def Let_def)
  with newDefaultSet_st_effect
         [of st "map Address (slice_list st (validators_of (objects st ! p)))"
            "policy_of (objects st ! p)" q]
  show ?thesis
    by (simp add: Copy_st_def NewSet_st_def Let_def)
qed

subsection \<open>The selector of a set\<close>

lemma selector_newDefaultSet:
  "selector (newDefaultSet addrs pol) =
     (case pol of RoundRobin \<Rightarrow> roundRobinSelector_fn | Sticky \<Rightarrow> stickySelector_fn
      | VRF \<Rightarrow> vrfSelector_fn)"
  by (cases pol) (simp_all add: newDefaultSet_def Let_def)

lemma selector_installed_newDefaultSet: "selector_installed (newDefaultSet addrs pol)"
  by (simp add: selector_installed_def selector_newDefaultSet policy_newDefaultSet)

lemma selector_installed_mutation:
  "selector_installed s \<Longrightarrow> selector_installed (apply_mutation s m)"
  by (cases m)
     (simp_all add: selector_installed_def AddValidator_def RemoveValidator_def
        split: option.split)

lemma selector_installed_mutations:
  "selector_installed s \<Longrightarrow> selector_installed (apply_mutations s ms)"
  unfolding apply_mutations_def
  by (induction ms arbitrary: s) (simp_all add: selector_installed_mutation)

lemma selector_installed_CalcProposer:
  "selector_installed s \<Longrightarrow> selector_installed (CalcProposer s lp r)"
  by (simp add: selector_installed_def CalcProposer_def)

lemma selector_Copy:
  "selector_installed s \<Longrightarrow> selector (Copy s) = selector s"
  by (simp add: selector_installed_def Copy_def NewSet_def selector_newDefaultSet
      policy_newDefaultSet)

lemma validators_only:
  assumes "validators s = validators s'"
  shows "Size s = Size s'" and "GetByIndex s i = GetByIndex s' i"
    and "GetByAddress s a = GetByAddress s' a" and "calcSeed s a r = calcSeed s' a r"
  using assms
  by (simp_all add: Size_def GetByIndex_def GetByAddress_def List_def calcSeed_def
      split: option.split)

lemma run_selector_validators:
  assumes "validators s = validators s'"
  shows "run_selector sel s lp r = run_selector sel s' lp r"
  by (cases sel)
     (simp_all add: roundRobinSelector_def stickySelector_def vrfSelector_def
        validators_only [OF assms])

lemma validators_Copy_sorted:
  assumes "sorted (AddressList s)"
  shows "validators (Copy s) = validators s"
proof -
  from assms have "map Address (validators s) = sort (map Address (validators s))"
    by (simp add: AddressList_def List_def sorted_sort_id)
  then have "sort_validators (validators s) = validators s"
    by (simp add: sort_validators_eq)
  then show ?thesis
    by (simp add: Copy_def NewSet_def validators_newDefaultSet sort_validators_eq)
qed

lemma CalcProposer_Copy:
  assumes "selector_installed s" and "sorted (AddressList s)"
  shows "GetProposer (CalcProposer (Copy s) lp r) = GetProposer (CalcProposer s lp r)"
  using run_selector_validators [OF validators_Copy_sorted [OF assms(2)], of "selector s" lp r]
  by (simp add: GetProposer_def CalcProposer_def selector_Copy [OF assms(1)])

subsection \<open>Independence of a copy\<close>

text \<open>
  Claim C7. For every validator set, \<^verbatim>\<open>Copy\<close> makes a new set object whose slice has
  a backing array of its own, with the same members (the same address list, as the
  original is sorted) and the same policy, and with it the same selector. Afterwards
  any sequence of \<^verbatim>\<open>AddValidator\<close> and \<^verbatim>\<open>RemoveValidator\<close> calls on the copy changes
  the copy and leaves the original, so its \<^verbatim>\<open>AddressList()\<close> and \<^verbatim>\<open>Size()\<close>, as they
  were, and any such sequence on the original leaves the copy as it was. The proposer
  of the copy is not taken from the original: it is the first member of the copy, or
  none when the set is empty, whatever proposer the original has cached.
\<close>

theorem C7_Copy:
  assumes "valid_ref st r"
  shows
    "(case Copy_st st r of
        (st1, c) \<Rightarrow>
          c = length (objects st) \<and> c \<noteq> r \<and> valid_ref st1 c \<and> valid_ref st1 r \<and>
          arr (List_st st1 c) \<noteq> arr (List_st st1 r) \<and>
          deref st1 r = deref st r \<and>
          deref st1 c = Copy (deref st r) \<and>
          AddressList (deref st1 c) = sort (AddressList (deref st r)) \<and>
          (sorted (AddressList (deref st r)) \<longrightarrow>
             AddressList (deref st1 c) = AddressList (deref st r)) \<and>
          set (AddressList (deref st1 c)) = set (AddressList (deref st r)) \<and>
          Size (deref st1 c) = Size (deref st r) \<and>
          Policy (deref st1 c) = Policy (deref st r) \<and>
          (selector_installed (deref st r) \<longrightarrow>
             selector (deref st1 c) = selector (deref st r) \<and>
             (sorted (AddressList (deref st r)) \<longrightarrow>
                GetProposer (CalcProposer (deref st1 c) lastProposer rnd) =
                GetProposer (CalcProposer (deref st r) lastProposer rnd))) \<and>
          deref (apply_mutations_st growslice c st1 ms) r = deref st r \<and>
          AddressList (deref (apply_mutations_st growslice c st1 ms) r) =
            AddressList (deref st r) \<and>
          Size (deref (apply_mutations_st growslice c st1 ms) r) = Size (deref st r) \<and>
          deref (apply_mutations_st growslice c st1 ms) c =
            apply_mutations (Copy (deref st r)) ms \<and>
          deref (apply_mutations_st growslice r st1 ms) c = deref st1 c \<and>
          AddressList (deref (apply_mutations_st growslice r st1 ms) c) =
            AddressList (deref st1 c) \<and>
          Size (deref (apply_mutations_st growslice r st1 ms) c) = Size (deref st1 c) \<and>
          deref (apply_mutations_st growslice r st1 ms) r = apply_mutations (deref st r) ms \<and>
          GetProposer (deref st1 c) =
            (if validators (deref st r) = [] then None else GetByIndex (deref st1 c) 0) \<and>
          (len_fits (deref st r) \<and> validators (deref st r) \<noteq> [] \<longrightarrow>
             GetProposer (deref st1 c) = Some (validators (deref st1 c) ! 0)) \<and>
          Copy ((deref st r)\<lparr>proposer := p\<rparr>) = Copy (deref st r))"
proof -
  obtain st1 c where cr: "Copy_st st r = (st1, c)"
    by (cases "Copy_st st r")
  from Copy_st_effect [of st r r] assms
  have c: "c = length (objects st)" and dc: "deref st1 c = Copy (deref st r)"
    and vc: "valid_ref st1 c" and ac: "arr (List_st st1 c) = length (arrays st)"
    and dr: "deref st1 r = deref st r" and vr: "valid_ref st1 r"
    and lr: "List_st st1 r = List_st st r"
    unfolding cr prod.case by blast+
  from assms have rl: "r < length (objects st)" and ar: "arr (List_st st r) < length (arrays st)"
    by (simp_all add: valid_ref_def List_st_def)
  from c rl have ne: "c \<noteq> r" and ne': "r \<noteq> c"
    by simp_all
  from ac lr ar have sep: "arr (List_st st1 c) \<noteq> arr (List_st st1 r)"
    and sep': "arr (List_st st1 r) \<noteq> arr (List_st st1 c)"
    by simp_all
  from apply_mutations_st_separate [OF vc vr ne' sep', of growslice ms]
  have m1: "deref (apply_mutations_st growslice c st1 ms) r = deref st r"
    and m2: "deref (apply_mutations_st growslice c st1 ms) c = apply_mutations (Copy (deref st r)) ms"
    by (simp_all add: dr dc)
  from apply_mutations_st_separate [OF vr vc ne sep, of growslice ms]
  have m3: "deref (apply_mutations_st growslice r st1 ms) c = deref st1 c"
    and m4: "deref (apply_mutations_st growslice r st1 ms) r = apply_mutations (deref st r) ms"
    by (simp_all add: dr)
  have a1: "AddressList (deref st1 c) = sort (AddressList (deref st r))"
    and a2: "sorted (AddressList (deref st r)) \<Longrightarrow>
             AddressList (deref st1 c) = AddressList (deref st r)"
    and a3: "set (AddressList (deref st1 c)) = set (AddressList (deref st r))"
    and a4: "Size (deref st1 c) = Size (deref st r)"
    and a5: "Policy (deref st1 c) = Policy (deref st r)"
    by (simp_all add: dc AddressList_Copy sorted_sort_id Size_Copy Policy_def policy_Copy)
  have s1: "selector (deref st1 c) = selector (deref st r)"
    if "selector_installed (deref st r)"
    using that by (simp add: dc selector_Copy)
  have s2: "GetProposer (CalcProposer (deref st1 c) lastProposer rnd) =
            GetProposer (CalcProposer (deref st r) lastProposer rnd)"
    if "selector_installed (deref st r)" "sorted (AddressList (deref st r))"
    using that by (simp add: dc CalcProposer_Copy)
  have p1: "GetProposer (deref st1 c) =
            (if validators (deref st r) = [] then None else GetByIndex (deref st1 c) 0)"
    by (simp add: dc GetProposer_def proposer_Copy)
  have p2: "GetProposer (deref st1 c) = Some (validators (deref st1 c) ! 0)"
    if "len_fits (deref st r)" "validators (deref st r) \<noteq> []"
    using proposer_Copy_first [OF that] by (simp add: dc GetProposer_def)
  have p3: "Copy ((deref st r)\<lparr>proposer := p\<rparr>) = Copy (deref st r)"
    by (rule Copy_proposer_update)
  from m1 m3
  have m1a: "AddressList (deref (apply_mutations_st growslice c st1 ms) r) = AddressList (deref st r)"
    and m1s: "Size (deref (apply_mutations_st growslice c st1 ms) r) = Size (deref st r)"
    and m3a: "AddressList (deref (apply_mutations_st growslice r st1 ms) c) =
              AddressList (deref st1 c)"
    and m3s: "Size (deref (apply_mutations_st growslice r st1 ms) c) = Size (deref st1 c)"
    by (simp_all only:)
  from c ne vc vr sep dr dc a1 a2 a3 a4 a5 s1 s2 m1 m1a m1s m2 m3 m3a m3s m4 p1 p2 p3
  show ?thesis
    unfolding cr prod.case by blast
qed

text \<open>
  In the example store the copy is the object 1. Adding 7 and removing 1 on the copy
  leaves the addresses \<open>[1, 2, 3]\<close> of the original, and the same calls on the original
  leave those of the copy. The copy selects as Sticky does: with the last proposer 2
  in round 0 it stays at 2.
\<close>

theorem C7_Copy_witness:
  "valid_ref example_store 0 \<and>
   sorted (AddressList (deref example_store 0)) \<and>
   selector_installed (deref example_store 0) \<and>
   len_fits (deref example_store 0) \<and> validators (deref example_store 0) \<noteq> [] \<and>
   snd (Copy_st example_store 0) = 1 \<and>
   arr (List_st (fst (Copy_st example_store 0)) 1) \<noteq> arr (List_st (fst (Copy_st example_store 0)) 0) \<and>
   AddressList (deref (fst (Copy_st example_store 0)) 1) = [1, 2, 3] \<and>
   Policy (deref (fst (Copy_st example_store 0)) 1) = Sticky \<and>
   AddressList (deref (apply_mutations_st double_cap 1 (fst (Copy_st example_store 0))
      [Add 7, Remove 1]) 1) = [2, 3, 7] \<and>
   AddressList (deref (apply_mutations_st double_cap 1 (fst (Copy_st example_store 0))
      [Add 7, Remove 1]) 0) = [1, 2, 3] \<and>
   Size (deref (apply_mutations_st double_cap 1 (fst (Copy_st example_store 0))
      [Add 7, Remove 1]) 0) = 3 \<and>
   AddressList (deref (apply_mutations_st double_cap 0 (fst (Copy_st example_store 0))
      [Add 7, Remove 1]) 0) = [2, 3, 7] \<and>
   AddressList (deref (apply_mutations_st double_cap 0 (fst (Copy_st example_store 0))
      [Add 7, Remove 1]) 1) = [1, 2, 3] \<and>
   GetProposer (deref (fst (Copy_st example_store 0)) 1) = Some (New 1) \<and>
   GetProposer (CalcProposer (deref (fst (Copy_st example_store 0)) 1) 2 0) = Some (New 2)"
proof -
  have h1: "valid_ref example_store 0"
    by code_simp
  have al: "AddressList (deref example_store 0) = [1, 2, 3]"
    by code_simp
  have h2: "sorted (AddressList (deref example_store 0))"
    by code_simp
  have h3: "selector_installed (deref example_store 0)"
    by code_simp
  have vs: "validators (deref example_store 0) = [New 1, New 2, New 3]"
    by code_simp
  have h4: "len_fits (deref example_store 0) \<and> validators (deref example_store 0) \<noteq> []"
    by (simp add: len_fits_def vs)
  have sn: "snd (Copy_st example_store 0) = 1"
    by code_simp
  have sz: "Size (deref example_store 0) = 3"
    by code_simp
  have pol: "Policy (deref example_store 0) = Sticky"
    by code_simp
  have first: "validators (deref (fst (Copy_st example_store 0)) 1) ! 0 = New 1"
    by code_simp
  have pick: "GetProposer (CalcProposer (deref example_store 0) 2 0) = Some (New 2)"
    by code_simp
  have mc: "AddressList (deref (apply_mutations_st double_cap 1 (fst (Copy_st example_store 0))
      [Add 7, Remove 1]) 1) = [2, 3, 7]"
    by code_simp
  have mo: "AddressList (deref (apply_mutations_st double_cap 0 (fst (Copy_st example_store 0))
      [Add 7, Remove 1]) 0) = [2, 3, 7]"
    by code_simp
  note t = C7_Copy [OF h1, where growslice = double_cap and ms = "[Add 7, Remove 1]"
      and lastProposer = 2 and rnd = 0, unfolded case_prod_beta sn]
  from t have a: "arr (List_st (fst (Copy_st example_store 0)) 1) \<noteq>
      arr (List_st (fst (Copy_st example_store 0)) 0)"
    by blast
  from t h2 have "AddressList (deref (fst (Copy_st example_store 0)) 1) =
      AddressList (deref example_store 0)"
    by blast
  then have b: "AddressList (deref (fst (Copy_st example_store 0)) 1) = [1, 2, 3]"
    by (simp only: al)
  from t have "Policy (deref (fst (Copy_st example_store 0)) 1) = Policy (deref example_store 0)"
    by blast
  then have c: "Policy (deref (fst (Copy_st example_store 0)) 1) = Sticky"
    by (simp only: pol)
  from t have "AddressList (deref (apply_mutations_st double_cap 1 (fst (Copy_st example_store 0))
      [Add 7, Remove 1]) 0) = AddressList (deref example_store 0)"
    by blast
  then have d: "AddressList (deref (apply_mutations_st double_cap 1 (fst (Copy_st example_store 0))
      [Add 7, Remove 1]) 0) = [1, 2, 3]"
    by (simp only: al)
  from t have "Size (deref (apply_mutations_st double_cap 1 (fst (Copy_st example_store 0))
      [Add 7, Remove 1]) 0) = Size (deref example_store 0)"
    by blast
  then have e: "Size (deref (apply_mutations_st double_cap 1 (fst (Copy_st example_store 0))
      [Add 7, Remove 1]) 0) = 3"
    by (simp only: sz)
  from t have "AddressList (deref (apply_mutations_st double_cap 0 (fst (Copy_st example_store 0))
      [Add 7, Remove 1]) 1) = AddressList (deref (fst (Copy_st example_store 0)) 1)"
    by blast
  with b have f: "AddressList (deref (apply_mutations_st double_cap 0 (fst (Copy_st example_store 0))
      [Add 7, Remove 1]) 1) = [1, 2, 3]"
    by (simp only:)
  from t h4 have "GetProposer (deref (fst (Copy_st example_store 0)) 1) =
      Some (validators (deref (fst (Copy_st example_store 0)) 1) ! 0)"
    by blast
  with first have g: "GetProposer (deref (fst (Copy_st example_store 0)) 1) = Some (New 1)"
    by (simp only:)
  from t h2 h3 have "GetProposer (CalcProposer (deref (fst (Copy_st example_store 0)) 1) 2 0) =
      GetProposer (CalcProposer (deref example_store 0) 2 0)"
    by blast
  with pick have i: "GetProposer (CalcProposer (deref (fst (Copy_st example_store 0)) 1) 2 0) =
      Some (New 2)"
    by (simp only:)
  from h1 h2 h3 h4 sn a b c d e f g i mc mo show ?thesis
    by blast
qed

text \<open>
  The store shows what a shared backing array does. The slice that \<^verbatim>\<open>List\<close> returned
  before a removal still has the length 3 and reads the shifted cells afterwards; and
  when a second object holds the same slice as the first, a removal through the second
  changes the addresses of the first.
\<close>

lemma List_slice_sees_removal:
  "slice_list example_store (List_st example_store 0) = [New 1, New 2, New 3] \<and>
   slice_list (snd (RemoveValidator_st example_store 0 1)) (List_st example_store 0) =
     [New 2, New 3, New 3]"
  by code_simp

lemma shared_slice_is_not_independent:
  "AddressList (deref (example_store\<lparr>objects := objects example_store @ objects example_store\<rparr>) 0) =
     [1, 2, 3] \<and>
   AddressList (deref (snd (RemoveValidator_st
      (example_store\<lparr>objects := objects example_store @ objects example_store\<rparr>) 1 1)) 0) =
     [2, 3, 3]"
  by code_simp

end
